theory Spec2Isabelle
  imports Main "HOL-Library.Product_Lexorder"
begin

section \<open>Values read from the hosting API\<close>

text \<open>
  \<^verbatim>\<open>res.json()\<close> decodes a response body into Python dicts, lists, strings, numbers,
  booleans and \<^verbatim>\<open>None\<close>.  A dict is kept as an association list in insertion
  order (the order Python iterates it in); a decoded dict holds every key once.
  JSON numbers with a fraction are left out: the program never reads a number, and
  a float behaves like an int under every operation it applies (it is neither
  subscriptable nor iterable, nor equal to a string).
\<close>

datatype json =
    JNull
  | JBool bool
  | JInt int
  | JStr string
  | JList "json list"
  | JObj "(string \<times> json) list"

text \<open>
  The exceptions the program can meet, each with the text \<^verbatim>\<open>str(e)\<close> is built
  from.  \<open>SystemExit\<close> is what \<^verbatim>\<open>sys.exit(1)\<close> raises; it is not an
  \<^verbatim>\<open>Exception\<close>, so no \<^verbatim>\<open>except Exception\<close> clause of the program catches it.
\<close>

datatype error =
    KeyError string
  | TypeError string
  | ValueError string
  | AttributeError string
  | OverflowError string
  | JSONDecodeError string
  | RequestException string
  | SystemExit int

definition quoted :: "string \<Rightarrow> string" where
  "quoted s = CHR 0x27 # s @ [CHR 0x27]"

text \<open>\<^verbatim>\<open>str(n)\<close> of an integer: its decimal digits.\<close>

definition digit_char :: "nat \<Rightarrow> char" where
  "digit_char d = ''0123456789'' ! d"

function str_nat :: "nat \<Rightarrow> string" where
  "str_nat n =
     (if n < 10 then [digit_char n]
      else str_nat (n div 10) @ [digit_char (n mod 10)])"
  by pat_completeness auto
termination
  by (relation "measure id") auto

declare str_nat.simps [simp del]

definition str_int :: "int \<Rightarrow> string" where
  "str_int i = (if i < 0 then CHR ''-'' # str_nat (nat (- i)) else str_nat (nat i))"

text \<open>\<^verbatim>\<open>str(e)\<close>: a \<^verbatim>\<open>KeyError\<close> prints the \<^verbatim>\<open>repr\<close> of the missing key.\<close>

fun str_exc :: "error \<Rightarrow> string" where
  "str_exc (KeyError k) = quoted k"
| "str_exc (TypeError m) = m"
| "str_exc (ValueError m) = m"
| "str_exc (AttributeError m) = m"
| "str_exc (OverflowError m) = m"
| "str_exc (JSONDecodeError m) = m"
| "str_exc (RequestException m) = m"
| "str_exc (SystemExit c) = str_int c"

fun type_name :: "json \<Rightarrow> string" where
  "type_name JNull = ''NoneType''"
| "type_name (JBool _) = ''bool''"
| "type_name (JInt _) = ''int''"
| "type_name (JStr _) = ''str''"
| "type_name (JList _) = ''list''"
| "type_name (JObj _) = ''dict''"

text \<open>\<^verbatim>\<open>v[key]\<close> with a string key: only a dict holding the key answers.\<close>

fun py_getitem :: "json \<Rightarrow> string \<Rightarrow> error + json" where
  "py_getitem (JObj kvs) key =
     (case map_of kvs key of Some x \<Rightarrow> Inr x | None \<Rightarrow> Inl (KeyError key))"
| "py_getitem (JList _) key =
     Inl (TypeError ''list indices must be integers or slices, not str'')"
| "py_getitem (JStr _) key = Inl (TypeError ''string indices must be integers'')"
| "py_getitem v key = Inl (TypeError (quoted (type_name v) @ '' object is not subscriptable''))"

text \<open>
  \<^verbatim>\<open>for row in v\<close>: a list yields its elements, a dict its keys, a string its
  characters; nothing else can be iterated.
\<close>

fun py_iter :: "json \<Rightarrow> error + json list" where
  "py_iter (JList xs) = Inr xs"
| "py_iter (JObj kvs) = Inr (map (\<lambda>kv. JStr (fst kv)) kvs)"
| "py_iter (JStr s) = Inr (map (\<lambda>c. JStr [c]) s)"
| "py_iter v = Inl (TypeError (quoted (type_name v) @ '' object is not iterable''))"

section \<open>Instants\<close>

text \<open>
  A naive \<^verbatim>\<open>datetime.datetime\<close>: its fields, compared field by field from the
  year down, as \<^verbatim>\<open>datetime._cmp\<close> does.
\<close>

record datetime =
  year :: nat
  month :: nat
  day :: nat
  hour :: nat
  minute :: nat
  second :: nat
  microsecond :: nat

definition dt_key :: "datetime \<Rightarrow> nat \<times> nat \<times> nat \<times> nat \<times> nat \<times> nat \<times> nat" where
  "dt_key t = (year t, month t, day t, hour t, minute t, second t, microsecond t)"

definition dt_le :: "datetime \<Rightarrow> datetime \<Rightarrow> bool" where
  "dt_le a b = (dt_key a \<le> dt_key b)"

definition is_leap :: "nat \<Rightarrow> bool" where
  "is_leap y = (y mod 4 = 0 \<and> (y mod 100 \<noteq> 0 \<or> y mod 400 = 0))"

definition days_in_month :: "nat \<Rightarrow> nat \<Rightarrow> nat" where
  "days_in_month y m =
     (if m = 2 then (if is_leap y then 29 else 28)
      else if m = 4 \<or> m = 6 \<or> m = 9 \<or> m = 11 then 30 else 31)"

text \<open>The checks of the \<^verbatim>\<open>datetime\<close> constructor, in its order.\<close>

definition mk_datetime ::
  "nat \<Rightarrow> nat \<Rightarrow> nat \<Rightarrow> nat \<Rightarrow> nat \<Rightarrow> nat \<Rightarrow> nat \<Rightarrow> error + datetime" where
  "mk_datetime y m d H M S us =
     (if \<not> (1 \<le> y \<and> y \<le> 9999) then Inl (ValueError (''year '' @ str_nat y @ '' is out of range''))
      else if \<not> (1 \<le> m \<and> m \<le> 12) then Inl (ValueError ''month must be in 1..12'')
      else if \<not> (1 \<le> d \<and> d \<le> days_in_month y m) then Inl (ValueError ''day is out of range for month'')
      else if \<not> H < 24 then Inl (ValueError ''hour must be in 0..23'')
      else if \<not> M < 60 then Inl (ValueError ''minute must be in 0..59'')
      else if \<not> S < 60 then Inl (ValueError ''second must be in 0..59'')
      else if \<not> us < 1000000 then Inl (ValueError ''microsecond must be in 0..999999'')
      else Inr \<lparr>year = y, month = m, day = d, hour = H, minute = M, second = S, microsecond = us\<rparr>)"

definition valid_datetime :: "datetime \<Rightarrow> bool" where
  "valid_datetime t =
     (1 \<le> year t \<and> year t \<le> 9999 \<and> 1 \<le> month t \<and> month t \<le> 12 \<and>
      1 \<le> day t \<and> day t \<le> days_in_month (year t) (month t) \<and>
      hour t < 24 \<and> minute t < 60 \<and> second t < 60 \<and> microsecond t < 1000000)"

section \<open>Date Normalizer\<close>

text \<open>
  \<^verbatim>\<open>datetime.datetime.strptime(date_string, "%Y-%m-%dT%H:%M:%SZ")\<close>.  The library
  turns the format into a regular expression, one group per directive, compiled
  with \<^verbatim>\<open>IGNORECASE\<close>, and matches it at the start of the string.  Each group is a
  list of alternatives tried in order with backtracking, modelled by the list of
  all ways a group can match, first choice first.
\<close>

definition digit :: "char \<Rightarrow> bool" where
  "digit c = (c \<in> set ''0123456789'')"

definition digit_val :: "char \<Rightarrow> nat" where
  "digit_val c = of_char c - 48"

definition between :: "char \<Rightarrow> char \<Rightarrow> char \<Rightarrow> bool" where
  "between lo hi c = ((of_char lo :: nat) \<le> of_char c \<and> (of_char c :: nat) \<le> of_char hi)"

definition alt2 :: "(char \<Rightarrow> bool) \<Rightarrow> (char \<Rightarrow> bool) \<Rightarrow> string \<Rightarrow> (nat \<times> string) list" where
  "alt2 P Q s =
     (case s of
        a # b # r \<Rightarrow> if P a \<and> Q b then [(10 * digit_val a + digit_val b, r)] else []
      | _ \<Rightarrow> [])"

definition alt1 :: "(char \<Rightarrow> bool) \<Rightarrow> string \<Rightarrow> (nat \<times> string) list" where
  "alt1 P s = (case s of a # r \<Rightarrow> if P a then [(digit_val a, r)] else [] | _ \<Rightarrow> [])"

text \<open>\<^verbatim>\<open>(?P<Y>\d\d\d\d)\<close>\<close>

definition re_Y :: "string \<Rightarrow> (nat \<times> string) list" where
  "re_Y s =
     (case s of
        a # b # c # d # r \<Rightarrow>
          if digit a \<and> digit b \<and> digit c \<and> digit d
          then [(1000 * digit_val a + 100 * digit_val b + 10 * digit_val c + digit_val d, r)]
          else []
      | _ \<Rightarrow> [])"

text \<open>\<^verbatim>\<open>(?P<m>1[0-2]|0[1-9]|[1-9])\<close>\<close>

definition re_m :: "string \<Rightarrow> (nat \<times> string) list" where
  "re_m s =
     alt2 (\<lambda>a. a = CHR ''1'') (between CHR ''0'' CHR ''2'') s @
     alt2 (\<lambda>a. a = CHR ''0'') (between CHR ''1'' CHR ''9'') s @
     alt1 (between CHR ''1'' CHR ''9'') s"

text \<open>
  \<^verbatim>\<open>(?P<d>3[0-1]|[1-2]\d|0[1-9]|[1-9]| [1-9])\<close>; \<^verbatim>\<open>int\<close> ignores the blank of the
  last alternative.
\<close>

definition re_d :: "string \<Rightarrow> (nat \<times> string) list" where
  "re_d s =
     alt2 (\<lambda>a. a = CHR ''3'') (between CHR ''0'' CHR ''1'') s @
     alt2 (between CHR ''1'' CHR ''2'') digit s @
     alt2 (\<lambda>a. a = CHR ''0'') (between CHR ''1'' CHR ''9'') s @
     alt1 (between CHR ''1'' CHR ''9'') s @
     (case s of
        a # b # r \<Rightarrow> if a = CHR '' '' \<and> between CHR ''1'' CHR ''9'' b then [(digit_val b, r)] else []
      | _ \<Rightarrow> [])"

text \<open>\<^verbatim>\<open>(?P<H>2[0-3]|[0-1]\d|\d)\<close>\<close>

definition re_H :: "string \<Rightarrow> (nat \<times> string) list" where
  "re_H s =
     alt2 (\<lambda>a. a = CHR ''2'') (between CHR ''0'' CHR ''3'') s @
     alt2 (between CHR ''0'' CHR ''1'') digit s @
     alt1 digit s"

text \<open>\<^verbatim>\<open>(?P<M>[0-5]\d|\d)\<close>\<close>

definition re_M :: "string \<Rightarrow> (nat \<times> string) list" where
  "re_M s = alt2 (between CHR ''0'' CHR ''5'') digit s @ alt1 digit s"

text \<open>\<^verbatim>\<open>(?P<S>6[0-1]|[0-5]\d|\d)\<close>\<close>

definition re_S :: "string \<Rightarrow> (nat \<times> string) list" where
  "re_S s =
     alt2 (\<lambda>a. a = CHR ''6'') (between CHR ''0'' CHR ''1'') s @
     alt2 (between CHR ''0'' CHR ''5'') digit s @
     alt1 digit s"

text \<open>A literal character of the format; \<open>cs\<close> lists its upper and lower case.\<close>

definition re_lit :: "string \<Rightarrow> string \<Rightarrow> string list" where
  "re_lit cs s = (case s of a # r \<Rightarrow> if a \<in> set cs then [r] else [] | _ \<Rightarrow> [])"

definition then_lit :: "string \<Rightarrow> (nat \<times> string) list \<Rightarrow> (nat \<times> string) list" where
  "then_lit cs ms = concat (map (\<lambda>(v, r). map (\<lambda>r'. (v, r')) (re_lit cs r)) ms)"

text \<open>
  The whole expression: every way to match it, in the order the matcher tries
  them, each with the six numbers read and the text left over.
\<close>

definition re_iso :: "string \<Rightarrow> ((nat \<times> nat \<times> nat \<times> nat \<times> nat \<times> nat) \<times> string) list" where
  "re_iso s =
     concat (map (\<lambda>(y, r1).
     concat (map (\<lambda>(m, r2).
     concat (map (\<lambda>(d, r3).
     concat (map (\<lambda>(H, r4).
     concat (map (\<lambda>(M, r5).
             map (\<lambda>(S, r6). ((y, m, d, H, M, S), r6))
       (then_lit ''Zz'' (re_S r5)))
       (then_lit '':'' (re_M r4))))
       (then_lit '':'' (re_H r3))))
       (then_lit ''Tt'' (re_d r2))))
       (then_lit ''-'' (re_m r1))))
       (then_lit ''-'' (re_Y s)))"

definition strptime :: "string \<Rightarrow> error + datetime" where
  "strptime s =
     (case re_iso s of
        [] \<Rightarrow> Inl (ValueError (''time data '' @ quoted s @ '' does not match format '' @
                                quoted ''%Y-%m-%dT%H:%M:%SZ''))
      | ((y, m, d, H, M, S), rest) # _ \<Rightarrow>
          if rest \<noteq> [] then Inl (ValueError (''unconverted data remains: '' @ rest))
          else mk_datetime y m d H M S 0)"

fun convert_string_to_iso_date :: "json \<Rightarrow> error + datetime" where
  "convert_string_to_iso_date (JStr s) = strptime s"
| "convert_string_to_iso_date v =
     Inl (TypeError (''strptime() argument 1 must be str, not '' @ type_name v))"

section \<open>Calendar arithmetic\<close>

text \<open>
  \<^verbatim>\<open>now - datetime.timedelta(days=n)\<close> goes through the proleptic Gregorian
  ordinal of the date (\<^verbatim>\<open>_ymd2ord\<close>, \<^verbatim>\<open>_ord2ymd\<close> of the datetime module) and
  keeps the time of day.  It raises \<^verbatim>\<open>OverflowError\<close> when the timedelta or the
  resulting date is out of range.
\<close>

definition days_before_year :: "nat \<Rightarrow> nat" where
  "days_before_year y =
     (let z = y - 1 in z * 365 + z div 4 - z div 100 + z div 400)"

definition days_before_month :: "nat \<Rightarrow> nat \<Rightarrow> nat" where
  "days_before_month y m =
     [0, 0, 31, 59, 90, 120, 151, 181, 212, 243, 273, 304, 334] ! m +
     (if m > 2 \<and> is_leap y then 1 else 0)"

definition ymd2ord :: "nat \<Rightarrow> nat \<Rightarrow> nat \<Rightarrow> nat" where
  "ymd2ord y m d = days_before_year y + days_before_month y m + d"

text \<open>
  The second half of \<^verbatim>\<open>_ord2ymd\<close>: month and day of the \<open>n\<close>-th day of a year,
  counted from 0.  \<^verbatim>\<open>(n + 50) >> 5\<close> estimates the month and is at most one too
  large.
\<close>

definition month_day :: "bool \<Rightarrow> nat \<Rightarrow> nat \<times> nat" where
  "month_day leapyear n =
     (let m = (n + 50) div 32;
          preceding = [0, 0, 31, 59, 90, 120, 151, 181, 212, 243, 273, 304, 334] ! m +
                      (if m > 2 \<and> leapyear then 1 else 0)
      in if preceding > n
         then (m - 1,
               n - (preceding -
                    ([0, 31, 28, 31, 30, 31, 30, 31, 31, 30, 31, 30, 31] ! (m - 1) +
                     (if m - 1 = 2 \<and> leapyear then 1 else 0))) + 1)
         else (m, n - preceding + 1))"

definition ord2ymd :: "nat \<Rightarrow> nat \<times> nat \<times> nat" where
  "ord2ymd ordinal =
     (let n = ordinal - 1;
          n400 = n div 146097; n = n mod 146097;
          n100 = n div 36524; n = n mod 36524;
          n4 = n div 1461; n = n mod 1461;
          n1 = n div 365; n = n mod 365;
          y = n400 * 400 + 1 + n100 * 100 + n4 * 4 + n1
      in if n1 = 4 \<or> n100 = 4 then (y - 1, 12, 31)
         else (y, month_day (n1 = 3 \<and> (n4 \<noteq> 24 \<or> n100 = 3)) n))"

definition sub_days :: "datetime \<Rightarrow> int \<Rightarrow> error + datetime" where
  "sub_days t n =
     (if \<bar>n\<bar> > 999999999
      then Inl (OverflowError (''days='' @ str_int n @ ''; must have magnitude <= 999999999''))
      else
        let ordinal = int (ymd2ord (year t) (month t) (day t)) - n
        in if 0 < ordinal \<and> ordinal \<le> 3652059
           then (case ord2ymd (nat ordinal) of
                   (y, m, d) \<Rightarrow> Inr (t\<lparr>year := y, month := m, day := d\<rparr>))
           else Inl (OverflowError ''date value out of range''))"

section \<open>Error Log, console and clock\<close>

text \<open>
  What the program shares with its surroundings: the text of \<^verbatim>\<open>error.log\<close>
  (empty when the file does not exist yet), the lines printed so far, and the wall
  clock, read by \<^verbatim>\<open>datetime.datetime.now()\<close>: \<open>clock w k\<close> is the instant the
  \<open>k\<close>-th reading returns.  \<open>frames w e\<close> is the text \<^verbatim>\<open>traceback\<close> prints for the
  stack on which the exception \<open>e\<close> was raised: lines naming the files of the script
  and of the library as they are installed, which the program does not determine.
\<close>

record world =
  error_log :: string
  stdout :: "string list"
  clock :: "nat \<Rightarrow> datetime"
  ticks :: nat
  frames :: "error \<Rightarrow> string"

definition datetime_now :: "world \<Rightarrow> datetime \<times> world" where
  "datetime_now w = (clock w (ticks w), w\<lparr>ticks := Suc (ticks w)\<rparr>)"

definition print :: "string \<Rightarrow> world \<Rightarrow> world" where
  "print line w = w\<lparr>stdout := stdout w @ [line]\<rparr>"

definition zfill :: "nat \<Rightarrow> string \<Rightarrow> string" where
  "zfill k s = replicate (k - length s) CHR ''0'' @ s"

text \<open>\<^verbatim>\<open>str(t)\<close> of a datetime: ISO format with a blank between date and time.\<close>

definition str_datetime :: "datetime \<Rightarrow> string" where
  "str_datetime t =
     zfill 4 (str_nat (year t)) @ ''-'' @ zfill 2 (str_nat (month t)) @ ''-'' @
     zfill 2 (str_nat (day t)) @ '' '' @ zfill 2 (str_nat (hour t)) @ '':'' @
     zfill 2 (str_nat (minute t)) @ '':'' @ zfill 2 (str_nat (second t)) @
     (if microsecond t = 0 then [] else ''.'' @ zfill 6 (str_nat (microsecond t)))"

text \<open>
  \<^verbatim>\<open>write_log\<close> opens the file in mode \<^verbatim>\<open>'a'\<close>: the entry goes after what the file
  holds.
\<close>

definition log_entry :: "datetime \<Rightarrow> string \<Rightarrow> string" where
  "log_entry t event = str_datetime t @ '': '' @ [CHR 0x09] @ '' '' @ event"

definition write_log :: "string \<Rightarrow> world \<Rightarrow> world" where
  "write_log event w =
     (case datetime_now w of
        (t, w1) \<Rightarrow> w1\<lparr>error_log := error_log w1 @ log_entry t event\<rparr>)"

text \<open>
  \<^verbatim>\<open>traceback.format_exc()\<close>: the header, the stack frames and the exception's
  own line.
\<close>

fun exc_name :: "error \<Rightarrow> string" where
  "exc_name (KeyError _) = ''KeyError''"
| "exc_name (TypeError _) = ''TypeError''"
| "exc_name (ValueError _) = ''ValueError''"
| "exc_name (AttributeError _) = ''AttributeError''"
| "exc_name (OverflowError _) = ''OverflowError''"
| "exc_name (JSONDecodeError _) = ''json.decoder.JSONDecodeError''"
| "exc_name (RequestException _) = ''requests.exceptions.RequestException''"
| "exc_name (SystemExit _) = ''SystemExit''"

definition format_exc :: "string \<Rightarrow> error \<Rightarrow> string" where
  "format_exc stack e =
     ''Traceback (most recent call last):'' @ [CHR 0x0A] @ stack @
     exc_name e @ '': '' @ str_exc e @ [CHR 0x0A]"

section \<open>Window filter\<close>

text \<open>
  Both aggregators with a Time Window start with
  \<^verbatim>\<open>[row for row in data if begin <= convert_string_to_iso_date(...) <= end]\<close>.
  The comprehension stands outside every \<^verbatim>\<open>try\<close>: the first Record whose
  timestamp cannot be read ends it with that exception.
\<close>

fun window_rows ::
  "(json \<Rightarrow> error + datetime) \<Rightarrow> datetime \<Rightarrow> datetime \<Rightarrow> json list \<Rightarrow> error + json list" where
  "window_rows ts b e [] = Inr []"
| "window_rows ts b e (row # rows) =
     (case ts row of
        Inl err \<Rightarrow> Inl err
      | Inr t \<Rightarrow>
          (case window_rows ts b e rows of
             Inl err \<Rightarrow> Inl err
           | Inr kept \<Rightarrow> Inr (if dt_le b t \<and> dt_le t e then row # kept else kept)))"

definition window_filter ::
  "(json \<Rightarrow> error + datetime) \<Rightarrow> json \<Rightarrow> datetime \<Rightarrow> datetime \<Rightarrow> error + json list" where
  "window_filter ts data b e =
     (case py_iter data of Inl err \<Rightarrow> Inl err | Inr rows \<Rightarrow> window_rows ts b e rows)"

text \<open>\<^verbatim>\<open>convert_string_to_iso_date(row['commit']['author']['date'])\<close>\<close>

definition commit_author_date :: "json \<Rightarrow> error + datetime" where
  "commit_author_date row =
     (case py_getitem row ''commit'' of
        Inl err \<Rightarrow> Inl err
      | Inr c \<Rightarrow>
          (case py_getitem c ''author'' of
             Inl err \<Rightarrow> Inl err
           | Inr a \<Rightarrow>
               (case py_getitem a ''date'' of
                  Inl err \<Rightarrow> Inl err
                | Inr d \<Rightarrow> convert_string_to_iso_date d)))"

text \<open>\<^verbatim>\<open>convert_string_to_iso_date(row['created_at'])\<close>\<close>

definition created_at :: "json \<Rightarrow> error + datetime" where
  "created_at row =
     (case py_getitem row ''created_at'' of
        Inl err \<Rightarrow> Inl err
      | Inr d \<Rightarrow> convert_string_to_iso_date d)"

definition in_window :: "(json \<Rightarrow> error + datetime) \<Rightarrow> datetime \<Rightarrow> datetime \<Rightarrow> json \<Rightarrow> bool" where
  "in_window ts b e row = (case ts row of Inl _ \<Rightarrow> False | Inr t \<Rightarrow> dt_le b t \<and> dt_le t e)"

section \<open>Top-Author Aggregator\<close>

text \<open>
  \<^verbatim>\<open>commit['author']['login']\<close>, used as a dict key: a list or a dict cannot be
  hashed.
\<close>

definition author_login :: "json \<Rightarrow> error + json" where
  "author_login commit =
     (case py_getitem commit ''author'' of
        Inl err \<Rightarrow> Inl err
      | Inr a \<Rightarrow>
          (case py_getitem a ''login'' of
             Inl err \<Rightarrow> Inl err
           | Inr l \<Rightarrow>
               (case l of
                  JList _ \<Rightarrow> Inl (TypeError (''unhashable type: '' @ quoted ''list''))
                | JObj _ \<Rightarrow> Inl (TypeError (''unhashable type: '' @ quoted ''dict''))
                | _ \<Rightarrow> Inr l)))"

text \<open>Dict keys are compared with \<^verbatim>\<open>==\<close>, under which \<^verbatim>\<open>True\<close> is \<^verbatim>\<open>1\<close>.\<close>

fun key_norm :: "json \<Rightarrow> json" where
  "key_norm (JBool b) = JInt (if b then 1 else 0)"
| "key_norm v = v"

text \<open>
  \<^verbatim>\<open>dct_authors\<close>, in insertion order: a new login enters with 1 at the end, a
  known one is counted up in place.
\<close>

fun tally :: "json \<Rightarrow> (json \<times> nat) list \<Rightarrow> (json \<times> nat) list" where
  "tally k [] = [(k, 1)]"
| "tally k ((k', n) # kvs) =
     (if key_norm k = key_norm k' then (k', n + 1) # kvs else (k', n) # tally k kvs)"

text \<open>
  One round of the loop over the commits.  The handler reads the clock for its
  message and \<^verbatim>\<open>write_log\<close> reads it again.
\<close>

definition count_commit ::
  "json \<Rightarrow> (json \<times> nat) list \<times> world \<Rightarrow> (json \<times> nat) list \<times> world" where
  "count_commit commit acc =
     (case acc of
        (dct_authors, w) \<Rightarrow>
          (case author_login commit of
             Inr l \<Rightarrow> (tally l dct_authors, w)
           | Inl err \<Rightarrow>
               (case datetime_now w of
                  (t, w1) \<Rightarrow>
                    (dct_authors, write_log (str_datetime t @ '': '' @ str_exc err) w1))))"

text \<open>
  \<^verbatim>\<open>Counter(dct_authors).most_common(top_count)\<close>: the \<open>top_count\<close> largest
  counts, equal counts in the order the dict holds them
  (\<^verbatim>\<open>sorted(items, key=itemgetter(1), reverse=True)[:n]\<close>).
\<close>

definition most_common :: "int \<Rightarrow> (json \<times> nat) list \<Rightarrow> (json \<times> nat) list" where
  "most_common n items = take (nat n) (sort_key (\<lambda>kc. - int (snd kc)) items)"

text \<open>\<^verbatim>\<open>'{:^20}|{:>5}'.format(login, count)\<close>\<close>

definition center20 :: "string \<Rightarrow> string" where
  "center20 s =
     (let pad = 20 - length s; l = pad div 2
      in replicate l CHR '' '' @ s @ replicate (pad - l) CHR '' '')"

definition rjust5 :: "string \<Rightarrow> string" where
  "rjust5 s = replicate (5 - length s) CHR '' '' @ s"

fun format_login :: "json \<Rightarrow> error + string" where
  "format_login (JStr s) = Inr (center20 s)"
| "format_login (JInt i) = Inr (center20 (str_int i))"
| "format_login (JBool b) = Inr (center20 (if b then ''1'' else ''0''))"
| "format_login v =
     Inl (TypeError (''unsupported format string passed to '' @ type_name v @ ''.__format__''))"

fun print_rows :: "(json \<times> nat) list \<Rightarrow> world \<Rightarrow> (error + json) \<times> world" where
  "print_rows [] w = (Inr JNull, w)"
| "print_rows ((login, n) # rest) w =
     (case format_login login of
        Inl err \<Rightarrow> (Inl err, w)
      | Inr cell \<Rightarrow> print_rows rest (print (cell @ ''|'' @ rjust5 (str_nat n)) w))"

text \<open>\<^verbatim>\<open>str(v)\<close> of a decoded value, as \<^verbatim>\<open>write_log\<close> applies it to its event.\<close>

fun join_comma :: "string list \<Rightarrow> string" where
  "join_comma [] = []"
| "join_comma [x] = x"
| "join_comma (x # y # ys) = x @ '', '' @ join_comma (y # ys)"

fun py_repr :: "json \<Rightarrow> string" where
  "py_repr JNull = ''None''"
| "py_repr (JBool b) = (if b then ''True'' else ''False'')"
| "py_repr (JInt i) = str_int i"
| "py_repr (JStr s) = quoted s"
| "py_repr (JList xs) = ''['' @ join_comma (map py_repr xs) @ '']''"
| "py_repr (JObj kvs) =
     ''{'' @ join_comma (map (\<lambda>(k, v). quoted k @ '': '' @ py_repr v) kvs) @ ''}''"

fun py_str :: "json \<Rightarrow> string" where
  "py_str (JStr s) = s"
| "py_str v = py_repr v"

text \<open>
  The function has no \<^verbatim>\<open>return\<close> with a value: a call that ends normally
  evaluates to \<^verbatim>\<open>None\<close> (\<open>JNull\<close>), whichever branch it took.  \<open>commits\<close> is the
  list the comprehension built, so \<^verbatim>\<open>'message' not in commits\<close> asks whether the
  string is one of its elements, and \<^verbatim>\<open>commits['message']\<close> subscripts a list.
\<close>

definition get_top_authors ::
  "json \<Rightarrow> datetime \<Rightarrow> datetime \<Rightarrow> int \<Rightarrow> world \<Rightarrow> (error + json) \<times> world" where
  "get_top_authors data b e top_count w =
     (case window_filter commit_author_date data b e of
        Inl err \<Rightarrow> (Inl err, w)
      | Inr commits \<Rightarrow>
          if JStr ''message'' \<notin> set commits then
            (case fold count_commit commits ([], w) of
               (dct_authors, w1) \<Rightarrow>
                 print_rows (most_common top_count dct_authors)
                   (print (replicate 30 CHR ''_'')
                     (print (center20 ''Login'' @ ''|'' @ rjust5 ''Commits'') w1)))
          else
            (case py_getitem (JList commits) ''message'' of
               Inl err \<Rightarrow> (Inl err, w)
             | Inr m \<Rightarrow>
                 if m = JStr ''Not Found'' then (Inr JNull, print ''Authors not found'' w)
                 else (Inr JNull, write_log (py_str m) w)))"

section \<open>State Counter\<close>

text \<open>\<^verbatim>\<open>count_dct[k] += 1\<close> on a dict that holds \<open>k\<close>.\<close>

definition dict_add :: "string \<Rightarrow> (string \<times> nat) list \<Rightarrow> (string \<times> nat) list" where
  "dict_add k cnt = map (\<lambda>kv. if fst kv = k then (fst kv, snd kv + 1) else kv) cnt"

text \<open>
  One round of the loop.  The handler opens the file in mode \<^verbatim>\<open>'w'\<close>: what it
  held is gone and \<^verbatim>\<open>str(e)\<close> is all it holds afterwards.
\<close>

definition count_state ::
  "json \<Rightarrow> (string \<times> nat) list \<times> world \<Rightarrow> (string \<times> nat) list \<times> world" where
  "count_state row acc =
     (case acc of
        (count_dct, w) \<Rightarrow>
          (case py_getitem row ''state'' of
             Inl err \<Rightarrow> (count_dct, w\<lparr>error_log := str_exc err\<rparr>)
           | Inr s \<Rightarrow>
               if s = JStr ''open'' then (dict_add ''open'' count_dct, w)
               else if s = JStr ''closed'' then (dict_add ''closed'' count_dct, w)
               else (count_dct, w)))"

definition get_count ::
  "json \<Rightarrow> datetime \<Rightarrow> datetime \<Rightarrow> world \<Rightarrow> (error + (string \<times> nat) list) \<times> world" where
  "get_count raw_data b e w =
     (case window_filter created_at raw_data b e of
        Inl err \<Rightarrow> (Inl err, w)
      | Inr data \<Rightarrow>
          (case fold count_state data ([(''open'', 0), (''closed'', 0)], w) of
             (count_dct, w1) \<Rightarrow> (Inr count_dct, w1)))"

section \<open>Staleness Counter\<close>

text \<open>
  The test of one row: \<^verbatim>\<open>and\<close> reads the state only when the date test holds.
\<close>

definition old_and_open :: "datetime \<Rightarrow> int \<Rightarrow> json \<Rightarrow> error + bool" where
  "old_and_open now days_to_old row =
     (case created_at row of
        Inl err \<Rightarrow> Inl err
      | Inr t \<Rightarrow>
          (case sub_days now days_to_old of
             Inl err \<Rightarrow> Inl err
           | Inr cutoff \<Rightarrow>
               if dt_le t cutoff then
                 (case py_getitem row ''state'' of
                    Inl err \<Rightarrow> Inl err
                  | Inr s \<Rightarrow> Inr (s = JStr ''open''))
               else Inr False))"

fun count_old_rows :: "datetime \<Rightarrow> int \<Rightarrow> json list \<Rightarrow> nat \<Rightarrow> error + nat" where
  "count_old_rows now days_to_old [] count_old = Inr count_old"
| "count_old_rows now days_to_old (row # rows) count_old =
     (case old_and_open now days_to_old row of
        Inl err \<Rightarrow> Inl err
      | Inr c \<Rightarrow> count_old_rows now days_to_old rows (if c then count_old + 1 else count_old))"

text \<open>
  The whole loop stands in one \<^verbatim>\<open>try\<close>: any exception is logged with its trace
  and the function returns \<^verbatim>\<open>None\<close>.
\<close>

definition get_count_old :: "json \<Rightarrow> int \<Rightarrow> world \<Rightarrow> nat option \<times> world" where
  "get_count_old data days_to_old w =
     (case datetime_now w of
        (now, w1) \<Rightarrow>
          (case (case py_iter data of
                   Inl err \<Rightarrow> Inl err
                 | Inr rows \<Rightarrow> count_old_rows now days_to_old rows 0) of
             Inl err \<Rightarrow> (None, write_log (format_exc (frames w1 err) err) w1)
           | Inr count_old \<Rightarrow> (Some count_old, w1)))"

section \<open>Paginated Fetcher\<close>

text \<open>
  What \<^verbatim>\<open>requests.get\<close> sends and what it gets back.  \<open>body\<close> is \<open>None\<close> when the
  body is not JSON (\<^verbatim>\<open>res.json()\<close> raises); \<open>next_link\<close> is the URL of
  \<^verbatim>\<open>res.links['next']\<close>; \<open>resp_url\<close> is \<^verbatim>\<open>res.url\<close>, the URL of the request the
  response answers.  The network answers a request with a response or with an
  exception of the library.
\<close>

record request =
  req_url :: string
  req_params :: "(string \<times> string) list"
  req_auth :: "string \<times> string"

record response =
  status_code :: nat
  resp_url :: string
  body :: "json option"
  next_link :: "string option"

type_synonym network = "request \<Rightarrow> error + response"

text \<open>\<^verbatim>\<open>res.ok\<close>: \<^verbatim>\<open>raise_for_status\<close> complains about 4xx and 5xx.\<close>

definition resp_ok :: "response \<Rightarrow> bool" where
  "resp_ok res = (\<not> (400 \<le> status_code res \<and> status_code res < 600))"

definition resp_json :: "response \<Rightarrow> error + json" where
  "resp_json res =
     (case body res of
        None \<Rightarrow> Inl (JSONDecodeError ''Expecting value: line 1 column 1 (char 0)'')
      | Some j \<Rightarrow> Inr j)"

text \<open>\<^verbatim>\<open>url.split('/')[-1:][0]\<close>: what follows the last slash.\<close>

definition last_segment :: "string \<Rightarrow> string" where
  "last_segment url = rev (takeWhile (\<lambda>c. c \<noteq> CHR ''/'') (rev url))"

definition params_for :: "string \<Rightarrow> string \<Rightarrow> (string \<times> string) list" where
  "params_for url branch =
     (let obj = last_segment url;
          p = [];
          p = (if obj = ''commits'' then [(''state'', ''all''), (''sha'', branch)] else p);
          p = (if obj = ''pulls'' then [(''state'', ''all''), (''base'', branch)] else p);
          p = (if obj = ''issues'' then [(''state'', ''all'')] else p)
      in p)"

text \<open>
  \<^verbatim>\<open>data.extend(res.json())\<close>: \<open>data\<close> must have the method (a list has), the
  body must decode, and what it decodes to is iterated.
\<close>

definition list_extend :: "json \<Rightarrow> response \<Rightarrow> error + json" where
  "list_extend data res =
     (case data of
        JList xs \<Rightarrow>
          (case resp_json res of
             Inl err \<Rightarrow> Inl err
           | Inr j \<Rightarrow>
               (case py_iter j of Inl err \<Rightarrow> Inl err | Inr ys \<Rightarrow> Inr (JList (xs @ ys))))
      | _ \<Rightarrow>
          Inl (AttributeError (quoted (type_name data) @ '' object has no attribute '' @
                               quoted ''extend'')))"

text \<open>
  The \<^verbatim>\<open>while 'next' in res.links.keys()\<close> loop.  Nothing bounds the chain of
  links, so the loop may run forever: \<open>None\<close> is the run that does not return.
\<close>

partial_function (option) follow_pages ::
  "network \<Rightarrow> (string \<times> string) list \<Rightarrow> string \<times> string \<Rightarrow> json \<Rightarrow> response \<Rightarrow>
   (error + json) option" where
  "follow_pages net params auth data res =
     (case next_link res of
        None \<Rightarrow> Some (Inr data)
      | Some u \<Rightarrow>
          (case net \<lparr>req_url = u, req_params = params, req_auth = auth\<rparr> of
             Inl err \<Rightarrow> Some (Inl err)
           | Inr res' \<Rightarrow>
               (case list_extend data res' of
                  Inl err \<Rightarrow> Some (Inl err)
                | Inr data' \<Rightarrow> follow_pages net params auth data' res')))"

definition get_data ::
  "string \<Rightarrow> string \<Rightarrow> string \<Rightarrow> string \<Rightarrow> network \<Rightarrow> world \<Rightarrow>
   ((error + json) \<times> world) option" where
  "get_data url branch username password net w =
     (let req_params = params_for url branch in
      case net \<lparr>req_url = url, req_params = req_params, req_auth = (username, password)\<rparr> of
        Inl err \<Rightarrow> Some (Inl err, w)
      | Inr res \<Rightarrow>
          if resp_ok res then
            (case resp_json res of
               Inl err \<Rightarrow> Some (Inl err, w)
             | Inr data \<Rightarrow>
                 map_option (\<lambda>r. (r, w))
                   (follow_pages net req_params (username, password) data res))
          else
            Some (Inl (SystemExit 1),
                  write_log (resp_url res @ '': '' @ str_nat (status_code res) @ [CHR 0x0A])
                    (print ''Getting data by URL failed. See error.log'' w)))"

section \<open>Re-formatting an instant\<close>

text \<open>
  Modelled from the spec: the repository holds no code that formats an instant, so
  "re-formatting back to the pattern \<^verbatim>\<open>YYYY-MM-DDTHH:MM:SSZ\<close>" is taken by its words:
  four digits for the year and two for every other field, zero-padded, with the
  pattern's separators.
\<close>

definition format_iso_date :: "datetime \<Rightarrow> string" where
  "format_iso_date t =
     zfill 4 (str_nat (year t)) @ ''-'' @ zfill 2 (str_nat (month t)) @ ''-'' @
     zfill 2 (str_nat (day t)) @ ''T'' @ zfill 2 (str_nat (hour t)) @ '':'' @
     zfill 2 (str_nat (minute t)) @ '':'' @ zfill 2 (str_nat (second t)) @ ''Z''"

text \<open>
  A string of the shape \<^verbatim>\<open>YYYY-MM-DDTHH:MM:SSZ\<close>: twenty characters, a digit wherever
  the pattern has a letter of a field, and the pattern's own separators elsewhere.
\<close>

definition matches_pattern :: "string \<Rightarrow> bool" where
  "matches_pattern s =
     (case s of
        [y1, y2, y3, y4, c1, m1, m2, c2, d1, d2, c3, h1, h2, c4, n1, n2, c5, s1, s2, c6] \<Rightarrow>
          digit y1 \<and> digit y2 \<and> digit y3 \<and> digit y4 \<and> c1 = CHR ''-'' \<and>
          digit m1 \<and> digit m2 \<and> c2 = CHR ''-'' \<and>
          digit d1 \<and> digit d2 \<and> c3 = CHR ''T'' \<and>
          digit h1 \<and> digit h2 \<and> c4 = CHR '':'' \<and>
          digit n1 \<and> digit n2 \<and> c5 = CHR '':'' \<and>
          digit s1 \<and> digit s2 \<and> c6 = CHR ''Z''
      | _ \<Rightarrow> False)"

text \<open>
  Modelled from the spec: the instant a string of the pattern denotes, its fields
  read as decimal numbers from the places the pattern gives them.
\<close>

definition timestamp_instant :: "string \<Rightarrow> datetime" where
  "timestamp_instant s =
     \<lparr>year = 1000 * digit_val (s ! 0) + 100 * digit_val (s ! 1) + 10 * digit_val (s ! 2) +
             digit_val (s ! 3),
      month = 10 * digit_val (s ! 5) + digit_val (s ! 6),
      day = 10 * digit_val (s ! 8) + digit_val (s ! 9),
      hour = 10 * digit_val (s ! 11) + digit_val (s ! 12),
      minute = 10 * digit_val (s ! 14) + digit_val (s ! 15),
      second = 10 * digit_val (s ! 17) + digit_val (s ! 18),
      microsecond = 0\<rparr>"

section \<open>Counting by state\<close>

text \<open>The Records of a list whose \<^verbatim>\<open>state\<close> field is the string \<open>s\<close>.\<close>

definition with_state :: "string \<Rightarrow> json list \<Rightarrow> json list" where
  "with_state s rows = filter (\<lambda>row. py_getitem row ''state'' = Inr (JStr s)) rows"

text \<open>A Record whose state is absent, or present and neither \<open>open\<close> nor \<open>closed\<close>.\<close>

definition state_unexpected :: "json \<Rightarrow> bool" where
  "state_unexpected row =
     (py_getitem row ''state'' \<noteq> Inr (JStr ''open'') \<and>
      py_getitem row ''state'' \<noteq> Inr (JStr ''closed''))"

text \<open>
  A well-formed Record for the Staleness Counter: its creation timestamp can be read
  and it has a state.
\<close>

definition well_formed :: "json \<Rightarrow> bool" where
  "well_formed row =
     (case created_at row of
        Inl _ \<Rightarrow> False
      | Inr _ \<Rightarrow> (case py_getitem row ''state'' of Inl _ \<Rightarrow> False | Inr _ \<Rightarrow> True))"

text \<open>A Record in state \<open>open\<close> created at or before \<open>cutoff\<close>.\<close>

definition stale :: "datetime \<Rightarrow> json \<Rightarrow> bool" where
  "stale cutoff row =
     (py_getitem row ''state'' = Inr (JStr ''open'') \<and>
      (case created_at row of Inl _ \<Rightarrow> False | Inr t \<Rightarrow> dt_le t cutoff))"

text \<open>A commit whose author login can be read and used as a key.\<close>

definition has_login :: "json \<Rightarrow> bool" where
  "has_login commit = (case author_login commit of Inl _ \<Rightarrow> False | Inr _ \<Rightarrow> True)"

text \<open>A Record that has a \<^verbatim>\<open>state\<close> field, whatever it holds.\<close>

definition has_state :: "json \<Rightarrow> bool" where
  "has_state row = (case py_getitem row ''state'' of Inl _ \<Rightarrow> False | Inr _ \<Rightarrow> True)"

text \<open>
  What a run of the Top-Author Aggregator over \<open>commits\<close> is expected to add to the
  Error Log when the clock has been read \<open>k\<close> times before: for every commit whose
  login cannot be read, in the order of the commits, one entry of \<^verbatim>\<open>write_log\<close>
  whose event is the instant the handler read, a colon and the text of the exception.
  Every such entry takes two readings of the clock.
\<close>

fun login_anomalies :: "(nat \<Rightarrow> datetime) \<Rightarrow> nat \<Rightarrow> json list \<Rightarrow> string" where
  "login_anomalies clk k [] = []"
| "login_anomalies clk k (c # cs) =
     (case author_login c of
        Inr l \<Rightarrow> login_anomalies clk k cs
      | Inl err \<Rightarrow>
          log_entry (clk (Suc k)) (str_datetime (clk k) @ '': '' @ str_exc err) @
          login_anomalies clk (k + 2) cs)"

section \<open>Sample data\<close>

definition sample_begin :: datetime where
  "sample_begin =
     \<lparr>year = 2020, month = 1, day = 1, hour = 0, minute = 0, second = 0, microsecond = 0\<rparr>"

definition sample_end :: datetime where
  "sample_end =
     \<lparr>year = 2020, month = 12, day = 31, hour = 23, minute = 59, second = 59, microsecond = 0\<rparr>"

definition sample_commit :: "string \<Rightarrow> string \<Rightarrow> json" where
  "sample_commit login date =
     JObj [(''sha'', JStr ''0f3c''),
           (''commit'', JObj [(''author'', JObj [(''name'', JStr login), (''date'', JStr date)])]),
           (''author'', JObj [(''login'', JStr login)])]"

definition sample_record :: "string \<Rightarrow> string \<Rightarrow> json" where
  "sample_record date st = JObj [(''number'', JInt 7), (''created_at'', JStr date), (''state'', JStr st)]"

definition sample_clock :: "nat \<Rightarrow> datetime" where
  "sample_clock k =
     \<lparr>year = 2020, month = 7, day = 1, hour = 10, minute = 0, second = k mod 60, microsecond = 0\<rparr>"

definition sample_frames :: "error \<Rightarrow> string" where
  "sample_frames e =
     ''  File '' @ [CHR 0x22] @ ''/srv/get_stat_repo.py'' @ [CHR 0x22] @
     '', line 136, in get_count_old'' @ [CHR 0x0A]"

definition sample_world :: world where
  "sample_world =
     \<lparr>error_log = ''earlier entry'', stdout = [], clock = sample_clock, ticks = 0,
      frames = sample_frames\<rparr>"

text \<open>
  A server with two pages of pull requests, the second answered with an error
  object, and \<^verbatim>\<open>404\<close> for every other URL.
\<close>

definition not_found :: json where
  "not_found =
     JObj [(''message'', JStr ''Not Found''),
           (''documentation_url'', JStr ''https://docs.github.com/rest'')]"

definition sample_net :: network where
  "sample_net rq =
     (if req_url rq = ''https://api.github.com/repos/o/r/pulls'' then
        Inr \<lparr>status_code = 200,
             resp_url = ''https://api.github.com/repos/o/r/pulls?state=all&base=master'',
             body = Some (JList [sample_record ''2020-03-01T08:00:00Z'' ''open'']),
             next_link = Some ''https://api.github.com/repositories/1/pulls?page=2''\<rparr>
      else if req_url rq = ''https://api.github.com/repositories/1/pulls?page=2'' then
        Inr \<lparr>status_code = 404,
             resp_url = ''https://api.github.com/repositories/1/pulls?page=2&state=all&base=master'',
             body = Some not_found,
             next_link = None\<rparr>
      else
        Inr \<lparr>status_code = 404,
             resp_url = req_url rq @ ''?state=all'',
             body = Some not_found,
             next_link = None\<rparr>)"

text \<open>The same server behind a proxy that answers the second page with an HTML error.\<close>

definition sample_net_html :: network where
  "sample_net_html rq =
     (if req_url rq = ''https://api.github.com/repositories/1/pulls?page=2'' then
        Inr \<lparr>status_code = 502,
             resp_url = ''https://api.github.com/repositories/1/pulls?page=2&state=all&base=master'',
             body = None,
             next_link = None\<rparr>
      else sample_net rq)"

text \<open>The same server, its second page answered with an error whose body is \<^verbatim>\<open>null\<close>.\<close>

definition sample_net_null :: network where
  "sample_net_null rq =
     (if req_url rq = ''https://api.github.com/repositories/1/pulls?page=2'' then
        Inr \<lparr>status_code = 500,
             resp_url = ''https://api.github.com/repositories/1/pulls?page=2&state=all&base=master'',
             body = Some JNull,
             next_link = None\<rparr>
      else sample_net rq)"

section \<open>Evaluation\<close>

lemmas parse_defs =
  strptime_def re_iso_def then_lit_def re_lit_def re_Y_def re_m_def re_d_def re_H_def
  re_M_def re_S_def alt1_def alt2_def digit_def digit_val_def between_def mk_datetime_def
  days_in_month_def is_leap_def

lemmas sample_defs =
  sample_begin_def sample_end_def sample_commit_def sample_record_def sample_clock_def
  sample_world_def

lemmas window_defs =
  window_filter_def commit_author_date_def created_at_def dt_le_def dt_key_def

section \<open>Ordinals and dates\<close>

lemma div_bounds: "c * q \<le> n \<Longrightarrow> n < c * q + c \<Longrightarrow> (n::nat) div c = q"
  by (metis add.commute div_nat_eqI mult.commute mult_Suc)

lemma divmod_eqI: "n = q * c + r \<Longrightarrow> r < c \<Longrightarrow> (n::nat) div c = q \<and> n mod c = r"
  by simp

lemma month_day_1_common: "d < 31 \<Longrightarrow> month_day False (0 + d) = (1, Suc d)"
proof (cases "d < 14")
  case True
  then have "(0 + d + 50) div 32 = 1"
    by (intro div_bounds) simp_all
  then show ?thesis
    by (simp add: month_day_def Let_def)
next
  case False
  assume d: "d < 31"
  with False have "(0 + d + 50) div 32 = 2"
    by (intro div_bounds) simp_all
  then show ?thesis using d
    by (simp add: month_day_def Let_def)
qed

lemma month_day_2_common: "d < 28 \<Longrightarrow> month_day False (31 + d) = (2, Suc d)"
proof (cases "d < 15")
  case True
  then have "(31 + d + 50) div 32 = 2"
    by (intro div_bounds) simp_all
  then show ?thesis
    by (simp add: month_day_def Let_def)
next
  case False
  assume d: "d < 28"
  with False have "(31 + d + 50) div 32 = 3"
    by (intro div_bounds) simp_all
  then show ?thesis using d
    by (simp add: month_day_def Let_def)
qed

lemma month_day_3_common: "d < 31 \<Longrightarrow> month_day False (59 + d) = (3, Suc d)"
proof (cases "d < 19")
  case True
  then have "(59 + d + 50) div 32 = 3"
    by (intro div_bounds) simp_all
  then show ?thesis
    by (simp add: month_day_def Let_def)
next
  case False
  assume d: "d < 31"
  with False have "(59 + d + 50) div 32 = 4"
    by (intro div_bounds) simp_all
  then show ?thesis using d
    by (simp add: month_day_def Let_def)
qed

lemma month_day_4_common: "d < 30 \<Longrightarrow> month_day False (90 + d) = (4, Suc d)"
proof (cases "d < 20")
  case True
  then have "(90 + d + 50) div 32 = 4"
    by (intro div_bounds) simp_all
  then show ?thesis
    by (simp add: month_day_def Let_def)
next
  case False
  assume d: "d < 30"
  with False have "(90 + d + 50) div 32 = 5"
    by (intro div_bounds) simp_all
  then show ?thesis using d
    by (simp add: month_day_def Let_def)
qed

lemma month_day_5_common: "d < 31 \<Longrightarrow> month_day False (120 + d) = (5, Suc d)"
proof (cases "d < 22")
  case True
  then have "(120 + d + 50) div 32 = 5"
    by (intro div_bounds) simp_all
  then show ?thesis
    by (simp add: month_day_def Let_def)
next
  case False
  assume d: "d < 31"
  with False have "(120 + d + 50) div 32 = 6"
    by (intro div_bounds) simp_all
  then show ?thesis using d
    by (simp add: month_day_def Let_def)
qed

lemma month_day_6_common: "d < 30 \<Longrightarrow> month_day False (151 + d) = (6, Suc d)"
proof (cases "d < 23")
  case True
  then have "(151 + d + 50) div 32 = 6"
    by (intro div_bounds) simp_all
  then show ?thesis
    by (simp add: month_day_def Let_def)
next
  case False
  assume d: "d < 30"
  with False have "(151 + d + 50) div 32 = 7"
    by (intro div_bounds) simp_all
  then show ?thesis using d
    by (simp add: month_day_def Let_def)
qed

lemma month_day_7_common: "d < 31 \<Longrightarrow> month_day False (181 + d) = (7, Suc d)"
proof (cases "d < 25")
  case True
  then have "(181 + d + 50) div 32 = 7"
    by (intro div_bounds) simp_all
  then show ?thesis
    by (simp add: month_day_def Let_def)
next
  case False
  assume d: "d < 31"
  with False have "(181 + d + 50) div 32 = 8"
    by (intro div_bounds) simp_all
  then show ?thesis using d
    by (simp add: month_day_def Let_def)
qed

lemma month_day_8_common: "d < 31 \<Longrightarrow> month_day False (212 + d) = (8, Suc d)"
proof (cases "d < 26")
  case True
  then have "(212 + d + 50) div 32 = 8"
    by (intro div_bounds) simp_all
  then show ?thesis
    by (simp add: month_day_def Let_def)
next
  case False
  assume d: "d < 31"
  with False have "(212 + d + 50) div 32 = 9"
    by (intro div_bounds) simp_all
  then show ?thesis using d
    by (simp add: month_day_def Let_def)
qed

lemma month_day_9_common: "d < 30 \<Longrightarrow> month_day False (243 + d) = (9, Suc d)"
proof (cases "d < 27")
  case True
  then have "(243 + d + 50) div 32 = 9"
    by (intro div_bounds) simp_all
  then show ?thesis
    by (simp add: month_day_def Let_def)
next
  case False
  assume d: "d < 30"
  with False have "(243 + d + 50) div 32 = 10"
    by (intro div_bounds) simp_all
  then show ?thesis using d
    by (simp add: month_day_def Let_def)
qed

lemma month_day_10_common: "d < 31 \<Longrightarrow> month_day False (273 + d) = (10, Suc d)"
proof (cases "d < 29")
  case True
  then have "(273 + d + 50) div 32 = 10"
    by (intro div_bounds) simp_all
  then show ?thesis
    by (simp add: month_day_def Let_def)
next
  case False
  assume d: "d < 31"
  with False have "(273 + d + 50) div 32 = 11"
    by (intro div_bounds) simp_all
  then show ?thesis using d
    by (simp add: month_day_def Let_def)
qed

lemma month_day_11_common: "d < 30 \<Longrightarrow> month_day False (304 + d) = (11, Suc d)"
proof -
  assume "d < 30"
  then have "(304 + d + 50) div 32 = 11"
    by (intro div_bounds) simp_all
  then show ?thesis
    by (simp add: month_day_def Let_def)
qed

lemma month_day_12_common: "d < 31 \<Longrightarrow> month_day False (334 + d) = (12, Suc d)"
proof -
  assume "d < 31"
  then have "(334 + d + 50) div 32 = 12"
    by (intro div_bounds) simp_all
  then show ?thesis
    by (simp add: month_day_def Let_def)
qed

lemma month_day_1_leap: "d < 31 \<Longrightarrow> month_day True (0 + d) = (1, Suc d)"
proof (cases "d < 14")
  case True
  then have "(0 + d + 50) div 32 = 1"
    by (intro div_bounds) simp_all
  then show ?thesis
    by (simp add: month_day_def Let_def)
next
  case False
  assume d: "d < 31"
  with False have "(0 + d + 50) div 32 = 2"
    by (intro div_bounds) simp_all
  then show ?thesis using d
    by (simp add: month_day_def Let_def)
qed

lemma month_day_2_leap: "d < 29 \<Longrightarrow> month_day True (31 + d) = (2, Suc d)"
proof (cases "d < 15")
  case True
  then have "(31 + d + 50) div 32 = 2"
    by (intro div_bounds) simp_all
  then show ?thesis
    by (simp add: month_day_def Let_def)
next
  case False
  assume d: "d < 29"
  with False have "(31 + d + 50) div 32 = 3"
    by (intro div_bounds) simp_all
  then show ?thesis using d
    by (simp add: month_day_def Let_def)
qed

lemma month_day_3_leap: "d < 31 \<Longrightarrow> month_day True (60 + d) = (3, Suc d)"
proof (cases "d < 18")
  case True
  then have "(60 + d + 50) div 32 = 3"
    by (intro div_bounds) simp_all
  then show ?thesis
    by (simp add: month_day_def Let_def)
next
  case False
  assume d: "d < 31"
  with False have "(60 + d + 50) div 32 = 4"
    by (intro div_bounds) simp_all
  then show ?thesis using d
    by (simp add: month_day_def Let_def)
qed

lemma month_day_4_leap: "d < 30 \<Longrightarrow> month_day True (91 + d) = (4, Suc d)"
proof (cases "d < 19")
  case True
  then have "(91 + d + 50) div 32 = 4"
    by (intro div_bounds) simp_all
  then show ?thesis
    by (simp add: month_day_def Let_def)
next
  case False
  assume d: "d < 30"
  with False have "(91 + d + 50) div 32 = 5"
    by (intro div_bounds) simp_all
  then show ?thesis using d
    by (simp add: month_day_def Let_def)
qed

lemma month_day_5_leap: "d < 31 \<Longrightarrow> month_day True (121 + d) = (5, Suc d)"
proof (cases "d < 21")
  case True
  then have "(121 + d + 50) div 32 = 5"
    by (intro div_bounds) simp_all
  then show ?thesis
    by (simp add: month_day_def Let_def)
next
  case False
  assume d: "d < 31"
  with False have "(121 + d + 50) div 32 = 6"
    by (intro div_bounds) simp_all
  then show ?thesis using d
    by (simp add: month_day_def Let_def)
qed

lemma month_day_6_leap: "d < 30 \<Longrightarrow> month_day True (152 + d) = (6, Suc d)"
proof (cases "d < 22")
  case True
  then have "(152 + d + 50) div 32 = 6"
    by (intro div_bounds) simp_all
  then show ?thesis
    by (simp add: month_day_def Let_def)
next
  case False
  assume d: "d < 30"
  with False have "(152 + d + 50) div 32 = 7"
    by (intro div_bounds) simp_all
  then show ?thesis using d
    by (simp add: month_day_def Let_def)
qed

lemma month_day_7_leap: "d < 31 \<Longrightarrow> month_day True (182 + d) = (7, Suc d)"
proof (cases "d < 24")
  case True
  then have "(182 + d + 50) div 32 = 7"
    by (intro div_bounds) simp_all
  then show ?thesis
    by (simp add: month_day_def Let_def)
next
  case False
  assume d: "d < 31"
  with False have "(182 + d + 50) div 32 = 8"
    by (intro div_bounds) simp_all
  then show ?thesis using d
    by (simp add: month_day_def Let_def)
qed

lemma month_day_8_leap: "d < 31 \<Longrightarrow> month_day True (213 + d) = (8, Suc d)"
proof (cases "d < 25")
  case True
  then have "(213 + d + 50) div 32 = 8"
    by (intro div_bounds) simp_all
  then show ?thesis
    by (simp add: month_day_def Let_def)
next
  case False
  assume d: "d < 31"
  with False have "(213 + d + 50) div 32 = 9"
    by (intro div_bounds) simp_all
  then show ?thesis using d
    by (simp add: month_day_def Let_def)
qed

lemma month_day_9_leap: "d < 30 \<Longrightarrow> month_day True (244 + d) = (9, Suc d)"
proof (cases "d < 26")
  case True
  then have "(244 + d + 50) div 32 = 9"
    by (intro div_bounds) simp_all
  then show ?thesis
    by (simp add: month_day_def Let_def)
next
  case False
  assume d: "d < 30"
  with False have "(244 + d + 50) div 32 = 10"
    by (intro div_bounds) simp_all
  then show ?thesis using d
    by (simp add: month_day_def Let_def)
qed

lemma month_day_10_leap: "d < 31 \<Longrightarrow> month_day True (274 + d) = (10, Suc d)"
proof (cases "d < 28")
  case True
  then have "(274 + d + 50) div 32 = 10"
    by (intro div_bounds) simp_all
  then show ?thesis
    by (simp add: month_day_def Let_def)
next
  case False
  assume d: "d < 31"
  with False have "(274 + d + 50) div 32 = 11"
    by (intro div_bounds) simp_all
  then show ?thesis using d
    by (simp add: month_day_def Let_def)
qed

lemma month_day_11_leap: "d < 30 \<Longrightarrow> month_day True (305 + d) = (11, Suc d)"
proof (cases "d < 29")
  case True
  then have "(305 + d + 50) div 32 = 11"
    by (intro div_bounds) simp_all
  then show ?thesis
    by (simp add: month_day_def Let_def)
next
  case False
  assume d: "d < 30"
  with False have "(305 + d + 50) div 32 = 12"
    by (intro div_bounds) simp_all
  then show ?thesis using d
    by (simp add: month_day_def Let_def)
qed

lemma month_day_12_leap: "d < 31 \<Longrightarrow> month_day True (335 + d) = (12, Suc d)"
proof -
  assume "d < 31"
  then have "(335 + d + 50) div 32 = 12"
    by (intro div_bounds) simp_all
  then show ?thesis
    by (simp add: month_day_def Let_def)
qed


lemma month_day_ok:
  assumes "1 \<le> m" "m \<le> 12" "1 \<le> d" "d \<le> days_in_month y m"
  shows "month_day (is_leap y) (days_before_month y m + d - 1) = (m, d)"
proof -
  obtain d' where d: "d = Suc d'" using assms(3) by (cases d) auto
  consider "m = 1" | "m = 2" | "m = 3" | "m = 4" | "m = 5" | "m = 6" | "m = 7" | "m = 8"
    | "m = 9" | "m = 10" | "m = 11" | "m = 12"
    using assms(1,2) by atomize_elim arith
  then show ?thesis
  proof cases
    case 1 then show ?thesis using assms(4) month_day_1_common [of d'] month_day_1_leap [of d']
      by (cases "is_leap y") (simp_all add: d days_before_month_def days_in_month_def)
  next
    case 2 then show ?thesis using assms(4) month_day_2_common [of d'] month_day_2_leap [of d']
      by (cases "is_leap y") (simp_all add: d days_before_month_def days_in_month_def)
  next
    case 3 then show ?thesis using assms(4) month_day_3_common [of d'] month_day_3_leap [of d']
      by (cases "is_leap y") (simp_all add: d days_before_month_def days_in_month_def)
  next
    case 4 then show ?thesis using assms(4) month_day_4_common [of d'] month_day_4_leap [of d']
      by (cases "is_leap y") (simp_all add: d days_before_month_def days_in_month_def)
  next
    case 5 then show ?thesis using assms(4) month_day_5_common [of d'] month_day_5_leap [of d']
      by (cases "is_leap y") (simp_all add: d days_before_month_def days_in_month_def)
  next
    case 6 then show ?thesis using assms(4) month_day_6_common [of d'] month_day_6_leap [of d']
      by (cases "is_leap y") (simp_all add: d days_before_month_def days_in_month_def)
  next
    case 7 then show ?thesis using assms(4) month_day_7_common [of d'] month_day_7_leap [of d']
      by (cases "is_leap y") (simp_all add: d days_before_month_def days_in_month_def)
  next
    case 8 then show ?thesis using assms(4) month_day_8_common [of d'] month_day_8_leap [of d']
      by (cases "is_leap y") (simp_all add: d days_before_month_def days_in_month_def)
  next
    case 9 then show ?thesis using assms(4) month_day_9_common [of d'] month_day_9_leap [of d']
      by (cases "is_leap y") (simp_all add: d days_before_month_def days_in_month_def)
  next
    case 10 then show ?thesis using assms(4) month_day_10_common [of d'] month_day_10_leap [of d']
      by (cases "is_leap y") (simp_all add: d days_before_month_def days_in_month_def)
  next
    case 11 then show ?thesis using assms(4) month_day_11_common [of d'] month_day_11_leap [of d']
      by (cases "is_leap y") (simp_all add: d days_before_month_def days_in_month_def)
  next
    case 12 then show ?thesis using assms(4) month_day_12_common [of d'] month_day_12_leap [of d']
      by (cases "is_leap y") (simp_all add: d days_before_month_def days_in_month_def)
  qed
qed

text \<open>The day of the year, counted from 0, stays inside the year.\<close>

lemma day_of_year_bound:
  assumes "1 \<le> m" "m \<le> 12" "1 \<le> d" "d \<le> days_in_month y m"
  shows "days_before_month y m + d - 1 < 365 \<or>
         (is_leap y \<and> m = 12 \<and> d = 31 \<and> days_before_month y m + d - 1 = 365)"
proof -
  consider "m = 1" | "m = 2" | "m = 3" | "m = 4" | "m = 5" | "m = 6" | "m = 7" | "m = 8"
    | "m = 9" | "m = 10" | "m = 11" | "m = 12"
    using assms(1,2) by atomize_elim arith
  then show ?thesis
    using assms(3,4)
    by cases (auto simp: days_before_month_def days_in_month_def split: if_splits)
qed

lemma year_split:
  fixes z :: nat
  obtains a b c e where "z = 400 * a + 100 * b + 4 * c + e" "b < 4" "c < 25" "e < 4"
proof
  let ?r = "z mod 400" and ?s = "z mod 400 mod 100"
  have "z = 400 * (z div 400) + ?r" by simp
  moreover have "?r = 100 * (?r div 100) + ?s" by simp
  moreover have "?s = 4 * (?s div 4) + ?s mod 4" by simp
  ultimately show "z = 400 * (z div 400) + 100 * (?r div 100) + 4 * (?s div 4) + ?s mod 4"
    by linarith
  have "?r < 400" by simp
  then show "?r div 100 < 4" by (simp add: div_less_iff_less_mult)
  have "?s < 100" by simp
  then show "?s div 4 < 25" by (simp add: div_less_iff_less_mult)
  show "?s mod 4 < 4" by simp
qed

lemma days_before_year_split:
  assumes "b < 4" "c < 25" "e < 4"
  shows "days_before_year (Suc (400 * a + 100 * b + 4 * c + e)) =
           146097 * a + 36524 * b + 1461 * c + 365 * e"
proof -
  let ?z = "400 * a + 100 * b + 4 * c + e"
  have d4: "?z div 4 = 100 * a + 25 * b + c"
    by (rule divmod_eqI [of ?z _ 4 e, THEN conjunct1]) (use assms in auto)
  have d100: "?z div 100 = 4 * a + b"
    by (rule divmod_eqI [of ?z _ 100 "4 * c + e", THEN conjunct1]) (use assms in auto)
  have d400: "?z div 400 = a"
    by (rule divmod_eqI [of ?z _ 400 "100 * b + 4 * c + e", THEN conjunct1]) (use assms in auto)
  show ?thesis
    by (simp add: days_before_year_def Let_def d4 d100 d400)
qed

lemma is_leap_split:
  assumes "b < 4" "c < 25" "e < 4"
  shows "is_leap (Suc (400 * a + 100 * b + 4 * c + e)) = (e = 3 \<and> (c \<noteq> 24 \<or> b = 3))"
proof -
  let ?y = "Suc (400 * a + 100 * b + 4 * c + e)"
  have m4: "(?y mod 4 = 0) = (e = 3)"
  proof (cases "e = 3")
    case True
    have "?y mod 4 = 0"
      by (rule divmod_eqI [of ?y "100 * a + 25 * b + c + 1" 4 0, THEN conjunct2])
         (use True in auto)
    with True show ?thesis by simp
  next
    case False
    have "?y mod 4 = e + 1"
      by (rule divmod_eqI [of ?y "100 * a + 25 * b + c" 4 "e + 1", THEN conjunct2])
         (use False assms in auto)
    with False show ?thesis by simp
  qed
  have m100: "(?y mod 100 = 0) = (c = 24 \<and> e = 3)"
  proof (cases "c = 24 \<and> e = 3")
    case True
    have "?y mod 100 = 0"
      by (rule divmod_eqI [of ?y "4 * a + b + 1" 100 0, THEN conjunct2])
         (use True in auto)
    with True show ?thesis by simp
  next
    case False
    have "?y mod 100 = 4 * c + e + 1"
      by (rule divmod_eqI [of ?y "4 * a + b" 100 "4 * c + e + 1", THEN conjunct2])
         (use False assms in auto)
    with False show ?thesis by simp
  qed
  have m400: "(?y mod 400 = 0) = (b = 3 \<and> c = 24 \<and> e = 3)"
  proof (cases "b = 3 \<and> c = 24 \<and> e = 3")
    case True
    have "?y mod 400 = 0"
      by (rule divmod_eqI [of ?y "a + 1" 400 0, THEN conjunct2])
         (use True in auto)
    with True show ?thesis by simp
  next
    case False
    have "?y mod 400 = 100 * b + 4 * c + e + 1"
      by (rule divmod_eqI [of ?y a 400 "100 * b + 4 * c + e + 1", THEN conjunct2])
         (use False assms in auto)
    with False show ?thesis by simp
  qed
  show ?thesis
    unfolding is_leap_def m4 m100 m400 by auto
qed


lemma ord2ymd_ymd2ord:
  assumes "1 \<le> y" "1 \<le> m" "m \<le> 12" "1 \<le> d" "d \<le> days_in_month y m"
  shows "ord2ymd (ymd2ord y m d) = (y, m, d)"
proof -
  obtain z where y: "y = Suc z" using assms(1) by (cases y) auto
  obtain a b c e where z: "z = 400 * a + 100 * b + 4 * c + e" and bd: "b < 4" "c < 25" "e < 4"
    by (rule year_split)
  define k where "k = days_before_month y m + d - 1"
  define r3 where "r3 = 365 * e + k"
  define r2 where "r2 = 1461 * c + r3"
  define r1 where "r1 = 36524 * b + r2"
  define n where "n = 146097 * a + r1"
  have dby: "days_before_year y = 146097 * a + 36524 * b + 1461 * c + 365 * e"
    unfolding y z by (rule days_before_year_split [OF bd])
  have leap: "is_leap y = (e = 3 \<and> (c \<noteq> 24 \<or> b = 3))"
    unfolding y z by (rule is_leap_split [OF bd])
  have ord: "ymd2ord y m d - 1 = n"
    using assms(4) by (simp add: ymd2ord_def dby n_def r1_def r2_def r3_def k_def)
  have yy: "y = 400 * a + 1 + 100 * b + 4 * c + e"
    by (simp add: y z)
  from day_of_year_bound [OF assms(2-5)]
  consider (inner) "k < 365" | (last) "is_leap y" "m = 12" "d = 31" "k = 365"
    unfolding k_def by blast
  then show ?thesis
  proof cases
    case inner
    have f7: "r3 div 365 = e \<and> r3 mod 365 = k"
      by (rule divmod_eqI) (use inner in \<open>simp_all add: r3_def\<close>)
    have f5: "r2 div 1461 = c \<and> r2 mod 1461 = r3"
      by (rule divmod_eqI) (use inner bd in \<open>simp_all add: r2_def r3_def\<close>)
    have f3: "r1 div 36524 = b \<and> r1 mod 36524 = r2"
      by (rule divmod_eqI) (use inner bd in \<open>simp_all add: r1_def r2_def r3_def\<close>)
    have f1: "n div 146097 = a \<and> n mod 146097 = r1"
      by (rule divmod_eqI) (use inner bd in \<open>simp_all add: n_def r1_def r2_def r3_def\<close>)
    have md: "month_day (e = 3 \<and> (c \<noteq> 24 \<or> b = 3)) k = (m, d)"
      unfolding k_def leap [symmetric] by (rule month_day_ok [OF assms(2-5)])
    have "ord2ymd (ymd2ord y m d) = (a * 400 + 1 + b * 100 + c * 4 + e, m, d)"
      unfolding ord2ymd_def Let_def ord using bd by (simp add: f1 f3 f5 f7 md [simplified])
    then show ?thesis
      by (simp add: y z)
  next
    case last
    from last(1) leap have e: "e = 3" and cb: "c \<noteq> 24 \<or> b = 3" by auto
    show ?thesis
    proof (cases "c = 24")
      case True
      with cb have b: "b = 3" by simp
      have f1: "n div 146097 = a \<and> n mod 146097 = 146096"
        by (rule divmod_eqI) (simp_all add: n_def r1_def r2_def r3_def last(4) e b True)
      have "ord2ymd (ymd2ord y m d) = (a * 400 + 1 + 4 * 100 + 0 * 4 + 0 - 1, 12, 31)"
        unfolding ord2ymd_def Let_def ord by (simp add: f1)
      then show ?thesis
        by (simp add: y z last e b True)
    next
      case False
      with bd have c: "c < 24" by simp
      have f5: "r2 div 1461 = c \<and> r2 mod 1461 = 1460"
        by (rule divmod_eqI) (simp_all add: r2_def r3_def last(4) e)
      have f3: "r1 div 36524 = b \<and> r1 mod 36524 = r2"
        by (rule divmod_eqI) (use c in \<open>simp_all add: r1_def r2_def r3_def last(4) e\<close>)
      have f1: "n div 146097 = a \<and> n mod 146097 = r1"
        by (rule divmod_eqI) (use c bd in \<open>simp_all add: n_def r1_def r2_def r3_def last(4) e\<close>)
      have "ord2ymd (ymd2ord y m d) = (a * 400 + 1 + b * 100 + c * 4 + 4 - 1, 12, 31)"
        unfolding ord2ymd_def Let_def ord using bd by (simp add: f1 f3 f5)
      then show ?thesis
        by (simp add: y z last e)
    qed
  qed
qed

lemma ymd2ord_le_max:
  assumes "1 \<le> y" "y \<le> 9999" "1 \<le> m" "m \<le> 12" "1 \<le> d" "d \<le> days_in_month y m"
  shows "ymd2ord y m d \<le> 3652059"
proof -
  obtain z where y: "y = Suc z" using assms(1) by (cases y) auto
  obtain a b c e where z: "z = 400 * a + 100 * b + 4 * c + e" and bd: "b < 4" "c < 25" "e < 4"
    by (rule year_split)
  define k where "k = days_before_month y m + d - 1"
  have dby: "days_before_year y = 146097 * a + 36524 * b + 1461 * c + 365 * e"
    unfolding y z by (rule days_before_year_split [OF bd])
  have leap: "is_leap y = (e = 3 \<and> (c \<noteq> 24 \<or> b = 3))"
    unfolding y z by (rule is_leap_split [OF bd])
  have ord: "ymd2ord y m d = 146097 * a + 36524 * b + 1461 * c + 365 * e + k + 1"
    using assms(5) by (simp add: ymd2ord_def dby k_def)
  have zle: "400 * a + 100 * b + 4 * c + e \<le> 9998"
    using assms(2) by (simp add: y z)
  then have a: "a \<le> 24" by linarith
  from day_of_year_bound [OF assms(3-6)]
  consider (inner) "k < 365" | (last) "is_leap y" "k = 365"
    unfolding k_def by blast
  then show ?thesis
  proof cases
    case inner
    then show ?thesis unfolding ord using zle a bd by linarith
  next
    case last
    from last(1) leap have e: "e = 3" and cb: "c \<noteq> 24 \<or> b = 3" by auto
    show ?thesis
    proof (cases "c = 24")
      case True
      with cb have b: "b = 3" by simp
      from zle have "a \<le> 23" unfolding e b True by linarith
      then show ?thesis unfolding ord e b True last(2) by linarith
    next
      case False
      with bd have "c \<le> 23" by simp
      then show ?thesis unfolding ord e last(2) using a bd by linarith
    qed
  qed
qed

lemma sub_days_zero:
  assumes "valid_datetime t"
  shows "sub_days t 0 = Inr t"
proof -
  from assms have v: "1 \<le> year t" "1 \<le> month t" "month t \<le> 12" "1 \<le> day t"
    "day t \<le> days_in_month (year t) (month t)" "year t \<le> 9999"
    by (simp_all add: valid_datetime_def)
  have rt: "ord2ymd (ymd2ord (year t) (month t) (day t)) = (year t, month t, day t)"
    by (rule ord2ymd_ymd2ord [OF v(1-5)])
  have pos: "0 < ymd2ord (year t) (month t) (day t)"
    using v(4) by (simp add: ymd2ord_def)
  have le: "ymd2ord (year t) (month t) (day t) \<le> 3652059"
    by (rule ymd2ord_le_max [OF v(1) v(6) v(2-5)])
  show ?thesis
    using pos le by (simp add: sub_days_def Let_def rt)
qed

section \<open>The window filter\<close>

lemma window_rows_Inr:
  "window_rows ts b e rows = Inr kept \<Longrightarrow> kept = filter (in_window ts b e) rows"
  by (induction rows arbitrary: kept) (auto simp: in_window_def split: sum.splits if_splits)

lemma window_rows_kept:
  "window_rows ts b e rows = Inr kept \<Longrightarrow> window_rows ts b e kept = Inr kept"
proof (induction rows arbitrary: kept)
  case Nil
  then show ?case by simp
next
  case (Cons row rows)
  from Cons.prems obtain t k where t: "ts row = Inr t" and k: "window_rows ts b e rows = Inr k"
    and kept: "kept = (if dt_le b t \<and> dt_le t e then row # k else k)"
    by (auto split: sum.splits)
  from Cons.IH [OF k] show ?case
    by (simp add: kept t)
qed

lemma window_rows_total:
  "(\<forall>row\<in>set rows. \<exists>t. ts row = Inr t) \<Longrightarrow>
   window_rows ts b e rows = Inr (filter (in_window ts b e) rows)"
  by (induction rows) (auto simp: in_window_def)

lemma window_filter_kept:
  assumes "window_filter ts data b e = Inr kept"
  shows "window_filter ts (JList kept) b e = Inr kept"
  using assms by (auto simp: window_filter_def split: sum.splits dest: window_rows_kept)

lemma window_filter_in_window:
  assumes "window_filter ts data b e = Inr kept" and "row \<in> set kept"
  shows "\<exists>t. ts row = Inr t \<and> dt_le b t \<and> dt_le t e"
proof -
  from assms(1) obtain rows where "window_rows ts b e rows = Inr kept"
    by (auto simp: window_filter_def split: sum.splits)
  then have "kept = filter (in_window ts b e) rows" by (rule window_rows_Inr)
  with assms(2) have "in_window ts b e row" by simp
  then show ?thesis by (auto simp: in_window_def split: sum.splits)
qed

lemma window_rows_error:
  assumes "row \<in> set rows" and "ts row = Inl err0"
  shows "\<exists>r\<in>set rows. \<exists>err. ts r = Inl err \<and> window_rows ts b e rows = Inl err"
  using assms
proof (induction rows)
  case Nil
  then show ?case by simp
next
  case (Cons r rows)
  show ?case
  proof (cases "ts r")
    case (Inl err)
    then show ?thesis by auto
  next
    case (Inr t)
    with Cons.prems have "row \<in> set rows" by auto
    from Cons.IH [OF this Cons.prems(2)] obtain r' err where
      "r' \<in> set rows" "ts r' = Inl err" "window_rows ts b e rows = Inl err"
      by blast
    with Inr show ?thesis by auto
  qed
qed

lemma window_filter_error:
  assumes "py_iter data = Inr rows" and "row \<in> set rows" and "ts row = Inl err0"
  shows "\<exists>r\<in>set rows. \<exists>err. ts r = Inl err \<and> window_filter ts data b e = Inl err"
  using window_rows_error [where ts = ts and row = row, OF assms(2,3)]
  by (simp add: window_filter_def assms(1))

lemma window_filter_total:
  assumes "py_iter data = Inr rows" and "\<forall>row\<in>set rows. \<exists>t. ts row = Inr t"
  shows "window_filter ts data b e = Inr (filter (in_window ts b e) rows)"
  using window_rows_total [OF assms(2)] by (simp add: window_filter_def assms(1))

text \<open>
  C1.  Whatever the Result Set and the Time Window, every Record the window filter
  of the Top-Author Aggregator or of the State Counter keeps has a timestamp \<open>t\<close>
  with \<open>begin \<le> t \<le> end\<close>, both ends included; the kept Records are exactly the
  Records of the Result Set inside the window; and each aggregator gives the same
  result and leaves the same log and console as on the kept Records alone, so a
  Record outside the window adds to no count and no tally.
\<close>

theorem window_filter_inclusive:
  assumes "window_filter commit_author_date commits_data b e = Inr commits"
      and "window_filter created_at raw_data b e = Inr data"
  shows "(\<forall>row\<in>set commits. \<exists>t. commit_author_date row = Inr t \<and> dt_le b t \<and> dt_le t e) \<and>
         (\<forall>row\<in>set data. \<exists>t. created_at row = Inr t \<and> dt_le b t \<and> dt_le t e) \<and>
         (\<exists>rows. py_iter commits_data = Inr rows \<and>
                  commits = filter (in_window commit_author_date b e) rows) \<and>
         (\<exists>rows. py_iter raw_data = Inr rows \<and> data = filter (in_window created_at b e) rows) \<and>
         get_top_authors commits_data b e top_count w =
           get_top_authors (JList commits) b e top_count w \<and>
         get_count raw_data b e w = get_count (JList data) b e w"
proof (intro conjI)
  show "\<forall>row\<in>set commits. \<exists>t. commit_author_date row = Inr t \<and> dt_le b t \<and> dt_le t e"
    using window_filter_in_window [OF assms(1)] by blast
  show "\<forall>row\<in>set data. \<exists>t. created_at row = Inr t \<and> dt_le b t \<and> dt_le t e"
    using window_filter_in_window [OF assms(2)] by blast
  show "\<exists>rows. py_iter commits_data = Inr rows \<and>
                commits = filter (in_window commit_author_date b e) rows"
    using assms(1) by (auto simp: window_filter_def split: sum.splits dest: window_rows_Inr)
  show "\<exists>rows. py_iter raw_data = Inr rows \<and> data = filter (in_window created_at b e) rows"
    using assms(2) by (auto simp: window_filter_def split: sum.splits dest: window_rows_Inr)
  show "get_top_authors commits_data b e top_count w =
          get_top_authors (JList commits) b e top_count w"
    by (simp add: get_top_authors_def assms(1) window_filter_kept [OF assms(1)])
  show "get_count raw_data b e w = get_count (JList data) b e w"
    by (simp add: get_count_def assms(2) window_filter_kept [OF assms(2)])
qed

theorem window_filter_inclusive_witness:
  "window_filter commit_author_date
     (JList [sample_commit ''alice'' ''2020-06-01T12:00:00Z'',
             sample_commit ''bob'' ''2021-01-01T00:00:00Z'',
             sample_commit ''carol'' ''2020-12-31T23:59:59Z''])
     sample_begin sample_end =
     Inr [sample_commit ''alice'' ''2020-06-01T12:00:00Z'',
          sample_commit ''carol'' ''2020-12-31T23:59:59Z''] \<and>
   window_filter created_at
     (JList [sample_record ''2019-12-31T23:59:59Z'' ''open'',
             sample_record ''2020-01-01T00:00:00Z'' ''closed''])
     sample_begin sample_end =
     Inr [sample_record ''2020-01-01T00:00:00Z'' ''closed''] \<and>
   get_top_authors
     (JList [sample_commit ''alice'' ''2020-06-01T12:00:00Z'',
             sample_commit ''bob'' ''2021-01-01T00:00:00Z'',
             sample_commit ''carol'' ''2020-12-31T23:59:59Z''])
     sample_begin sample_end 30 sample_world =
   get_top_authors
     (JList [sample_commit ''alice'' ''2020-06-01T12:00:00Z'',
             sample_commit ''carol'' ''2020-12-31T23:59:59Z''])
     sample_begin sample_end 30 sample_world \<and>
   get_count
     (JList [sample_record ''2019-12-31T23:59:59Z'' ''open'',
             sample_record ''2020-01-01T00:00:00Z'' ''closed''])
     sample_begin sample_end sample_world =
   get_count (JList [sample_record ''2020-01-01T00:00:00Z'' ''closed''])
     sample_begin sample_end sample_world"
proof -
  have h1: "window_filter commit_author_date
     (JList [sample_commit ''alice'' ''2020-06-01T12:00:00Z'',
             sample_commit ''bob'' ''2021-01-01T00:00:00Z'',
             sample_commit ''carol'' ''2020-12-31T23:59:59Z''])
     sample_begin sample_end =
     Inr [sample_commit ''alice'' ''2020-06-01T12:00:00Z'',
          sample_commit ''carol'' ''2020-12-31T23:59:59Z'']"
    by (simp add: window_defs sample_defs parse_defs)
  have h2: "window_filter created_at
     (JList [sample_record ''2019-12-31T23:59:59Z'' ''open'',
             sample_record ''2020-01-01T00:00:00Z'' ''closed''])
     sample_begin sample_end =
     Inr [sample_record ''2020-01-01T00:00:00Z'' ''closed'']"
    by (simp add: window_defs sample_defs parse_defs)
  from window_filter_inclusive [OF h1 h2, of 30 sample_world] h1 h2 show ?thesis
    by simp
qed

section \<open>Top-Author Aggregator on an error object\<close>

text \<open>
  C3.  Given an API error object instead of a list, the comprehension iterates the
  object's keys and subscripts the first of them, a string, with \<^verbatim>\<open>'commit'\<close>:
  the aggregator ends with \<^verbatim>\<open>TypeError\<close>.  Nothing is printed and nothing is
  written to the Error Log by the aggregator, whatever the \<^verbatim>\<open>message\<close> is.
\<close>

theorem get_top_authors_error_object:
  "get_top_authors (JObj ((k, v) # kvs)) b e top_count w =
     (Inl (TypeError ''string indices must be integers''), w)"
  by (simp add: get_top_authors_def window_filter_def commit_author_date_def)

section \<open>State Counter\<close>

lemma fold_count_state_fst:
  "fst (fold count_state rows ([(''open'', a), (''closed'', c)], w)) =
     [(''open'', a + length (with_state ''open'' rows)),
      (''closed'', c + length (with_state ''closed'' rows))]"
  by (induction rows arbitrary: a c w)
     (auto simp: count_state_def dict_add_def with_state_def split: sum.splits)

lemma count_partition:
  assumes "\<And>x. \<not> (P x \<and> Q x)"
  shows "length (filter P xs) + length (filter Q xs) \<le> length xs \<and>
         (length (filter P xs) + length (filter Q xs) < length xs \<longleftrightarrow>
            (\<exists>x\<in>set xs. \<not> P x \<and> \<not> Q x))"
  using assms by (induction xs) (auto simp: less_Suc_eq_le)

text \<open>
  C4 (amended).  Whenever the window filter yields its subset \<open>data\<close>, the State
  Counter returns the mapping with exactly the keys \<open>open\<close> and \<open>closed\<close>, in this
  order, holding the numbers of Records of \<open>data\<close> in state \<open>open\<close> and in state
  \<open>closed\<close>; the two values sum to at most the size of \<open>data\<close>, and to less exactly
  when \<open>data\<close> holds a Record whose state is absent or neither of the two.  The filter
  yields its subset for every list of Records whose creation timestamps can all be
  read.  A list holding a Record whose creation timestamp cannot be read gives no
  mapping: the State Counter ends with the exception of such a Record and leaves the
  Error Log and the console as they were.
\<close>

theorem get_count_sum:
  "(\<forall>data. window_filter created_at raw_data b e = Inr data \<longrightarrow>
      fst (get_count raw_data b e w) =
        Inr [(''open'', length (with_state ''open'' data)),
             (''closed'', length (with_state ''closed'' data))] \<and>
      length (with_state ''open'' data) + length (with_state ''closed'' data) \<le> length data \<and>
      (length (with_state ''open'' data) + length (with_state ''closed'' data) < length data
         \<longleftrightarrow> (\<exists>row\<in>set data. state_unexpected row))) \<and>
   (\<forall>rows. py_iter raw_data = Inr rows \<and> (\<forall>row\<in>set rows. \<exists>t. created_at row = Inr t) \<longrightarrow>
      window_filter created_at raw_data b e = Inr (filter (in_window created_at b e) rows)) \<and>
   (\<forall>rows row. py_iter raw_data = Inr rows \<and> row \<in> set rows \<and>
        (\<exists>err. created_at row = Inl err) \<longrightarrow>
      (\<exists>r\<in>set rows. \<exists>err. created_at r = Inl err \<and>
         get_count raw_data b e w = (Inl err, w)))"
proof (intro conjI allI impI)
  fix data
  assume wf: "window_filter created_at raw_data b e = Inr data"
  have "fst (fold count_state data ([(''open'', 0), (''closed'', 0)], w)) =
          [(''open'', length (with_state ''open'' data)),
           (''closed'', length (with_state ''closed'' data))]"
    using fold_count_state_fst [of data 0 0 w] by simp
  then show "fst (get_count raw_data b e w) =
           Inr [(''open'', length (with_state ''open'' data)),
                (''closed'', length (with_state ''closed'' data))]"
    by (auto simp: get_count_def wf split: prod.splits)
  have part: "length (with_state ''open'' data) + length (with_state ''closed'' data) \<le> length data \<and>
         (length (with_state ''open'' data) + length (with_state ''closed'' data) < length data
            \<longleftrightarrow> (\<exists>row\<in>set data. state_unexpected row))"
    unfolding with_state_def state_unexpected_def
    by (rule count_partition) simp
  from part show "length (with_state ''open'' data) + length (with_state ''closed'' data) \<le> length data"
    by (rule conjunct1)
  from part show "(length (with_state ''open'' data) + length (with_state ''closed'' data) < length data)
          = (\<exists>row\<in>set data. state_unexpected row)"
    by (rule conjunct2)
next
  fix rows
  assume "py_iter raw_data = Inr rows \<and> (\<forall>row\<in>set rows. \<exists>t. created_at row = Inr t)"
  then show "window_filter created_at raw_data b e = Inr (filter (in_window created_at b e) rows)"
    using window_filter_total [of raw_data rows created_at b e] by blast
next
  fix rows row
  assume a: "py_iter raw_data = Inr rows \<and> row \<in> set rows \<and> (\<exists>err. created_at row = Inl err)"
  then obtain err0 where "py_iter raw_data = Inr rows" "row \<in> set rows" "created_at row = Inl err0"
    by blast
  from window_filter_error [where ts = created_at and row = row and b = b and e = e, OF this]
  obtain r err where
    "r \<in> set rows" "created_at r = Inl err" "window_filter created_at raw_data b e = Inl err"
    by blast
  then show "\<exists>r\<in>set rows. \<exists>err. created_at r = Inl err \<and> get_count raw_data b e w = (Inl err, w)"
    by (auto simp: get_count_def)
qed

theorem get_count_sum_counterexample:
  "get_count
     (JList [sample_record ''2020-03-01T08:00:00Z'' ''open'',
             JObj [(''number'', JInt 8), (''state'', JStr ''closed'')]])
     sample_begin sample_end sample_world =
     (Inl (KeyError ''created_at''), sample_world)"
  by (simp add: get_count_def window_defs sample_defs parse_defs)

theorem get_count_sum_witness:
  "fst (get_count
     (JList [sample_record ''2020-03-01T08:00:00Z'' ''open'',
             sample_record ''2020-03-02T08:00:00Z'' ''merged'',
             JObj [(''created_at'', JStr ''2020-03-03T08:00:00Z'')],
             sample_record ''2020-03-04T08:00:00Z'' ''closed'',
             sample_record ''2021-03-05T08:00:00Z'' ''closed''])
     sample_begin sample_end sample_world) = Inr [(''open'', 1), (''closed'', 1)] \<and>
   get_count
     (JList [sample_record ''2020-03-01T08:00:00Z'' ''open'',
             sample_record ''2020-02-30T08:00:00Z'' ''open''])
     sample_begin sample_end sample_world =
     (Inl (ValueError ''day is out of range for month''), sample_world)"
proof -
  let ?r1 = "sample_record ''2020-03-01T08:00:00Z'' ''open''"
  let ?r2 = "sample_record ''2020-03-02T08:00:00Z'' ''merged''"
  let ?r3 = "JObj [(''created_at'', JStr ''2020-03-03T08:00:00Z'')]"
  let ?r4 = "sample_record ''2020-03-04T08:00:00Z'' ''closed''"
  let ?r5 = "sample_record ''2021-03-05T08:00:00Z'' ''closed''"
  let ?bad = "sample_record ''2020-02-30T08:00:00Z'' ''open''"
  have c: "created_at ?r1 =
             Inr \<lparr>year = 2020, month = 3, day = 1, hour = 8, minute = 0, second = 0, microsecond = 0\<rparr>"
          "created_at ?r2 =
             Inr \<lparr>year = 2020, month = 3, day = 2, hour = 8, minute = 0, second = 0, microsecond = 0\<rparr>"
          "created_at ?r3 =
             Inr \<lparr>year = 2020, month = 3, day = 3, hour = 8, minute = 0, second = 0, microsecond = 0\<rparr>"
          "created_at ?r4 =
             Inr \<lparr>year = 2020, month = 3, day = 4, hour = 8, minute = 0, second = 0, microsecond = 0\<rparr>"
          "created_at ?r5 =
             Inr \<lparr>year = 2021, month = 3, day = 5, hour = 8, minute = 0, second = 0, microsecond = 0\<rparr>"
    by (simp_all add: created_at_def sample_record_def parse_defs)
  have cb: "created_at ?bad = Inl (ValueError ''day is out of range for month'')"
    by (simp add: created_at_def sample_record_def parse_defs)
  have it: "py_iter (JList [?r1, ?r2, ?r3, ?r4, ?r5]) = Inr [?r1, ?r2, ?r3, ?r4, ?r5]"
    by simp
  have all: "\<forall>row\<in>set [?r1, ?r2, ?r3, ?r4, ?r5]. \<exists>t. created_at row = Inr t"
    by (simp add: c)
  note T = get_count_sum [of "JList [?r1, ?r2, ?r3, ?r4, ?r5]" sample_begin sample_end sample_world]
  from T [THEN conjunct2, THEN conjunct1, rule_format, of "[?r1, ?r2, ?r3, ?r4, ?r5]"] it all
  have "window_filter created_at (JList [?r1, ?r2, ?r3, ?r4, ?r5]) sample_begin sample_end =
          Inr (filter (in_window created_at sample_begin sample_end) [?r1, ?r2, ?r3, ?r4, ?r5])"
    by blast
  then have wf: "window_filter created_at (JList [?r1, ?r2, ?r3, ?r4, ?r5]) sample_begin sample_end =
          Inr [?r1, ?r2, ?r3, ?r4]"
    by (simp add: in_window_def c dt_le_def dt_key_def sample_begin_def sample_end_def)
  from T [THEN conjunct1, rule_format, OF wf, THEN conjunct1]
  have p1: "fst (get_count (JList [?r1, ?r2, ?r3, ?r4, ?r5]) sample_begin sample_end sample_world) =
          Inr [(''open'', 1), (''closed'', 1)]"
    by (simp add: with_state_def sample_record_def)
  have itb: "py_iter (JList [?r1, ?bad]) = Inr [?r1, ?bad]" by simp
  note B = get_count_sum [of "JList [?r1, ?bad]" sample_begin sample_end sample_world,
             THEN conjunct2, THEN conjunct2, rule_format, of "[?r1, ?bad]" ?bad]
  have "\<exists>r\<in>set [?r1, ?bad]. \<exists>err. created_at r = Inl err \<and>
          get_count (JList [?r1, ?bad]) sample_begin sample_end sample_world = (Inl err, sample_world)"
    by (rule B) (simp add: cb)
  then have p2: "get_count (JList [?r1, ?bad]) sample_begin sample_end sample_world =
          (Inl (ValueError ''day is out of range for month''), sample_world)"
    by (auto simp: c cb)
  from p1 p2 show ?thesis by (rule conjI)
qed

section \<open>Staleness Counter\<close>

lemma old_and_open_stale:
  assumes "well_formed row" and "sub_days now days_to_old = Inr cutoff"
  shows "old_and_open now days_to_old row = Inr (stale cutoff row)"
  using assms
  by (auto simp: old_and_open_def well_formed_def stale_def split: sum.splits)

lemma count_old_rows_stale:
  assumes "\<forall>row\<in>set rows. well_formed row" and "sub_days now days_to_old = Inr cutoff"
  shows "count_old_rows now days_to_old rows n = Inr (n + length (filter (stale cutoff) rows))"
  using assms(1)
proof (induction rows arbitrary: n)
  case Nil
  then show ?case by simp
next
  case (Cons row rows)
  then have "old_and_open now days_to_old row = Inr (stale cutoff row)"
    using old_and_open_stale [OF _ assms(2)] by simp
  with Cons show ?case by simp
qed

text \<open>
  C7.  On a Result Set of well-formed Records, with \<open>now\<close> the instant the clock gives the
  call and a threshold \<open>d\<close> for which \<open>now\<close> minus \<open>d\<close> days exists, the Staleness Counter
  returns the number of Records in state \<open>open\<close> whose creation instant is at or
  before \<open>now\<close> minus \<open>d\<close> days.  With threshold 0 it returns the number of open
  Records created at or before \<open>now\<close>.
\<close>

theorem get_count_old_counts:
  assumes "py_iter data = Inr rows" and "\<forall>row\<in>set rows. well_formed row"
  shows "(\<forall>cutoff. sub_days (clock w (ticks w)) days_to_old = Inr cutoff \<longrightarrow>
            fst (get_count_old data days_to_old w) =
              Some (length (filter (stale cutoff) rows))) \<and>
         (valid_datetime (clock w (ticks w)) \<longrightarrow>
            fst (get_count_old data 0 w) =
              Some (length (filter (stale (clock w (ticks w))) rows)))"
proof -
  have gen: "fst (get_count_old data d w) = Some (length (filter (stale cutoff) rows))"
    if "sub_days (clock w (ticks w)) d = Inr cutoff" for d cutoff
    using count_old_rows_stale [OF assms(2) that, of 0]
    by (simp add: get_count_old_def datetime_now_def assms(1))
  show ?thesis
    using gen sub_days_zero by blast
qed

theorem get_count_old_counts_witness:
  "fst (get_count_old
          (JList [sample_record ''2020-06-01T09:30:00Z'' ''open'',
                  sample_record ''2020-06-25T09:30:00Z'' ''open'',
                  sample_record ''2020-05-01T09:30:00Z'' ''closed''])
          14 sample_world) = Some 1 \<and>
   fst (get_count_old
          (JList [sample_record ''2020-06-01T09:30:00Z'' ''open'',
                  sample_record ''2020-06-25T09:30:00Z'' ''open'',
                  sample_record ''2020-05-01T09:30:00Z'' ''closed''])
          0 sample_world) = Some 2"
proof -
  let ?rows = "[sample_record ''2020-06-01T09:30:00Z'' ''open'',
                sample_record ''2020-06-25T09:30:00Z'' ''open'',
                sample_record ''2020-05-01T09:30:00Z'' ''closed'']"
  have c: "created_at (sample_record ''2020-06-01T09:30:00Z'' st) =
             Inr \<lparr>year = 2020, month = 6, day = 1, hour = 9, minute = 30, second = 0, microsecond = 0\<rparr>"
          "created_at (sample_record ''2020-06-25T09:30:00Z'' st) =
             Inr \<lparr>year = 2020, month = 6, day = 25, hour = 9, minute = 30, second = 0, microsecond = 0\<rparr>"
          "created_at (sample_record ''2020-05-01T09:30:00Z'' st) =
             Inr \<lparr>year = 2020, month = 5, day = 1, hour = 9, minute = 30, second = 0, microsecond = 0\<rparr>"
    for st
    by (simp_all add: created_at_def sample_record_def parse_defs)
  have s: "py_getitem (sample_record date st) ''state'' = Inr (JStr st)" for date st
    by (simp add: sample_record_def)
  have h1: "py_iter (JList ?rows) = Inr ?rows" by simp
  have h2: "\<forall>row\<in>set ?rows. well_formed row"
    by (simp add: well_formed_def c s)
  have h3: "sub_days (clock sample_world (ticks sample_world)) 14 =
              Inr \<lparr>year = 2020, month = 6, day = 17, hour = 10, minute = 0, second = 0, microsecond = 0\<rparr>"
    by (simp add: sample_defs sub_days_def ymd2ord_def ord2ymd_def month_day_def
          days_before_year_def days_before_month_def is_leap_def Let_def)
  have h4: "valid_datetime (clock sample_world (ticks sample_world))"
    by (simp add: sample_defs valid_datetime_def days_in_month_def)
  from get_count_old_counts [OF h1 h2, of sample_world 14] h3 h4 show ?thesis
    by (simp add: stale_def c s dt_le_def dt_key_def sample_world_def sample_clock_def)
qed

section \<open>Records the aggregators skip\<close>

lemma window_rows_all_in:
  "(\<forall>row\<in>set rows. in_window ts b e row) \<Longrightarrow> window_rows ts b e rows = Inr rows"
  by (induction rows) (auto simp: in_window_def split: sum.splits)

lemma window_filter_sublist:
  assumes "window_filter ts data b e = Inr kept"
  shows "window_filter ts (JList (filter P kept)) b e = Inr (filter P kept)"
proof -
  from assms obtain rows where "window_rows ts b e rows = Inr kept"
    by (auto simp: window_filter_def split: sum.splits)
  then have "kept = filter (in_window ts b e) rows" by (rule window_rows_Inr)
  then have "\<forall>row\<in>set (filter P kept). in_window ts b e row" by simp
  then show ?thesis by (simp add: window_filter_def window_rows_all_in)
qed

lemma commit_author_date_JStr: "commit_author_date (JStr s) = Inl (TypeError ''string indices must be integers'')"
  by (simp add: commit_author_date_def)

lemma kept_no_message:
  assumes "window_filter commit_author_date data b e = Inr commits"
  shows "JStr s \<notin> set commits"
  using window_filter_in_window [OF assms, of "JStr s"] by (auto simp: commit_author_date_JStr)

lemma fold_count_commit_fst:
  "fst (fold count_commit commits (dct, w)) = fst (fold count_commit (filter has_login commits) (dct, w'))"
proof (induction commits arbitrary: dct w w')
  case Nil
  then show ?case by simp
next
  case (Cons c commits)
  show ?case
  proof (cases "author_login c")
    case (Inl err)
    then show ?thesis using Cons [of dct _ w']
      by (simp add: count_commit_def has_login_def split: prod.splits)
  next
    case (Inr l)
    then show ?thesis using Cons [of "tally l dct" w w']
      by (simp add: count_commit_def has_login_def)
  qed
qed

lemma fold_count_commit_good:
  "(\<forall>c\<in>set commits. has_login c) \<Longrightarrow> snd (fold count_commit commits (dct, w)) = w"
  by (induction commits arbitrary: dct) (auto simp: count_commit_def has_login_def split: sum.splits)

lemma log_entry_nonempty: "log_entry t ev \<noteq> []"
  by (simp add: log_entry_def)

lemma fold_count_commit_snd:
  "snd (fold count_commit commits (dct, w)) =
     w\<lparr>error_log := error_log w @ login_anomalies (clock w) (ticks w) commits,
       ticks := ticks w + 2 * length (filter (\<lambda>c. \<not> has_login c) commits)\<rparr>"
proof (induction commits arbitrary: dct w)
  case Nil
  show ?case by simp
next
  case (Cons c commits)
  show ?case
  proof (cases "author_login c")
    case (Inr l)
    from Cons [of "tally l dct" w] Inr show ?thesis
      by (simp add: count_commit_def has_login_def)
  next
    case (Inl err)
    define entry where
      "entry = log_entry (clock w (Suc (ticks w))) (str_datetime (clock w (ticks w)) @ '': '' @ str_exc err)"
    define w1 where "w1 = w\<lparr>error_log := error_log w @ entry, ticks := Suc (Suc (ticks w))\<rparr>"
    have step: "count_commit c (dct, w) = (dct, w1)"
      by (simp add: count_commit_def Inl datetime_now_def write_log_def w1_def entry_def)
    have la: "login_anomalies (clock w) (ticks w) (c # commits) =
                entry @ login_anomalies (clock w) (Suc (Suc (ticks w))) commits"
      by (simp add: Inl entry_def)
    have w1: "clock w1 = clock w" "ticks w1 = Suc (Suc (ticks w))" "error_log w1 = error_log w @ entry"
      by (simp_all add: w1_def)
    have "snd (fold count_commit (c # commits) (dct, w)) =
            w1\<lparr>error_log := error_log w1 @ login_anomalies (clock w1) (ticks w1) commits,
               ticks := ticks w1 + 2 * length (filter (\<lambda>c. \<not> has_login c) commits)\<rparr>"
      using Cons [of dct w1] by (simp add: step)
    also have "\<dots> =
            w\<lparr>error_log := error_log w @ login_anomalies (clock w) (ticks w) (c # commits),
              ticks := ticks w + 2 * length (filter (\<lambda>c. \<not> has_login c) (c # commits))\<rparr>"
      unfolding w1 la using Inl by (simp add: has_login_def w1_def)
    finally show ?thesis .
  qed
qed

lemma login_anomalies_nonempty:
  "(login_anomalies clk k commits \<noteq> []) = (\<exists>c\<in>set commits. \<not> has_login c)"
  by (induction commits arbitrary: k)
     (auto simp: has_login_def log_entry_nonempty split: sum.splits)

lemma login_anomalies_entry:
  assumes "c \<in> set commits" and "author_login c = Inl err"
  shows "\<exists>j pre post. login_anomalies clk k commits =
           pre @ log_entry (clk (Suc j)) (str_datetime (clk j) @ '': '' @ str_exc err) @ post"
  using assms(1)
proof (induction commits arbitrary: k)
  case Nil
  then show ?case by simp
next
  case (Cons c' commits)
  show ?case
  proof (cases "c = c'")
    case True
    have "login_anomalies clk k (c' # commits) =
            [] @ log_entry (clk (Suc k)) (str_datetime (clk k) @ '': '' @ str_exc err) @
            login_anomalies clk (k + 2) commits"
      using assms(2) True by simp
    then show ?thesis by blast
  next
    case False
    with Cons.prems have mem: "c \<in> set commits" by simp
    show ?thesis
    proof (cases "author_login c'")
      case (Inr l)
      from Cons.IH [OF mem, of k] Inr show ?thesis by simp
    next
      case (Inl err')
      from Cons.IH [OF mem, of "k + 2"] obtain j pre post where
        "login_anomalies clk (k + 2) commits =
           pre @ log_entry (clk (Suc j)) (str_datetime (clk j) @ '': '' @ str_exc err) @ post"
        by blast
      then have "login_anomalies clk k (c' # commits) =
           (log_entry (clk (Suc k)) (str_datetime (clk k) @ '': '' @ str_exc err') @ pre) @
           log_entry (clk (Suc j)) (str_datetime (clk j) @ '': '' @ str_exc err) @ post"
        using Inl by simp
      then show ?thesis by blast
    qed
  qed
qed

lemma print_frame: "print line (w\<lparr>error_log := l, ticks := k\<rparr>) = (print line w)\<lparr>error_log := l, ticks := k\<rparr>"
  by (simp add: print_def)


lemma print_rows_frame:
  "print_rows rows (w\<lparr>error_log := l, ticks := k\<rparr>) =
     (case print_rows rows w of (r, w') \<Rightarrow> (r, w'\<lparr>error_log := l, ticks := k\<rparr>))"
  by (induction rows arbitrary: w) (auto simp: print_frame split: sum.splits)


lemma get_top_authors_skip:
  assumes "window_filter commit_author_date data b e = Inr commits"
  shows "get_top_authors data b e top_count w =
           (case get_top_authors (JList (filter has_login commits)) b e top_count w of
              (r, w') \<Rightarrow>
                (r, w'\<lparr>error_log := error_log w @ login_anomalies (clock w) (ticks w) commits,
                       ticks := ticks w + 2 * length (filter (\<lambda>c. \<not> has_login c) commits)\<rparr>))"
proof -
  let ?good = "filter has_login commits"
  obtain dct w1 where f: "fold count_commit commits ([], w) = (dct, w1)"
    by (cases "fold count_commit commits ([], w)")
  obtain dct' w1' where f': "fold count_commit ?good ([], w) = (dct', w1')"
    by (cases "fold count_commit ?good ([], w)")
  have dct: "dct' = dct"
    using fold_count_commit_fst [of commits "[]" w w] by (simp add: f f')
  have w1': "w1' = w"
    using fold_count_commit_good [of ?good "[]" w] by (simp add: f')
  have w1: "w1 = w\<lparr>error_log := error_log w @ login_anomalies (clock w) (ticks w) commits,
               ticks := ticks w + 2 * length (filter (\<lambda>c. \<not> has_login c) commits)\<rparr>"
    using fold_count_commit_snd [of commits "[]" w] by (simp add: f)
  have nm: "JStr ''message'' \<notin> set commits" "JStr ''message'' \<notin> set ?good"
    using kept_no_message [OF assms] by simp_all
  show ?thesis
    by (simp add: get_top_authors_def assms window_filter_sublist [OF assms] nm f f' dct w1' w1
          print_frame print_rows_frame)
qed

lemma created_at_state_error:
  assumes "created_at row = Inr t" and "py_getitem row ''state'' = Inl err"
  shows "err = KeyError ''state''"
  using assms by (cases row) (auto simp: created_at_def split: option.splits)

lemma fold_count_state_snd:
  assumes "\<forall>row\<in>set rows. \<forall>err. py_getitem row ''state'' = Inl err \<longrightarrow> err = KeyError ''state''"
  shows "snd (fold count_state rows (cnt, w)) =
           (if \<exists>row\<in>set rows. \<not> has_state row then w\<lparr>error_log := quoted ''state''\<rparr> else w)"
  using assms
proof (induction rows arbitrary: cnt w)
  case Nil
  then show ?case by simp
next
  case (Cons row rows)
  show ?case
  proof (cases "py_getitem row ''state''")
    case (Inl err)
    with Cons.prems have err: "err = KeyError ''state''" by simp
    have "count_state row (cnt, w) = (cnt, w\<lparr>error_log := quoted ''state''\<rparr>)"
      by (simp add: count_state_def Inl err)
    moreover have "\<not> has_state row" by (simp add: has_state_def Inl)
    ultimately show ?thesis
      using Cons.IH [of cnt "w\<lparr>error_log := quoted ''state''\<rparr>"] Cons.prems by simp
  next
    case (Inr s)
    then have "snd (count_state row (cnt, w)) = w"
      by (simp add: count_state_def)
    then obtain cnt' where "count_state row (cnt, w) = (cnt', w)"
      by (cases "count_state row (cnt, w)") auto
    moreover have "has_state row" by (simp add: has_state_def Inr)
    ultimately show ?thesis
      using Cons.IH [of cnt' w] Cons.prems by simp
  qed
qed

lemma with_state_has_state: "with_state s (filter has_state rows) = with_state s rows"
  by (induction rows) (auto simp: with_state_def has_state_def)

lemma get_count_result:
  assumes "window_filter created_at raw_data b e = Inr data"
  shows "get_count raw_data b e w =
           (Inr [(''open'', length (with_state ''open'' data)),
                 (''closed'', length (with_state ''closed'' data))],
            if \<exists>row\<in>set data. \<not> has_state row then w\<lparr>error_log := quoted ''state''\<rparr> else w)"
proof -
  have "\<forall>row\<in>set data. \<forall>err. py_getitem row ''state'' = Inl err \<longrightarrow> err = KeyError ''state''"
    using window_filter_in_window [OF assms] created_at_state_error by blast
  from fold_count_state_snd [OF this, of "[(''open'', 0), (''closed'', 0)]" w]
       fold_count_state_fst [of data 0 0 w]
  show ?thesis
    by (auto simp: get_count_def assms split: prod.splits)
qed

lemma print_rows_log: "error_log (snd (print_rows rows w)) = error_log w"
  by (induction rows arbitrary: w) (auto simp: print_def split: sum.splits)

lemma get_top_authors_appends:
  "\<exists>logged. error_log (snd (get_top_authors data b e top_count w)) = error_log w @ logged"
proof (cases "window_filter commit_author_date data b e")
  case (Inl err)
  then show ?thesis by (simp add: get_top_authors_def)
next
  case (Inr commits)
  obtain dct w1 where f: "fold count_commit commits ([], w) = (dct, w1)"
    by (cases "fold count_commit commits ([], w)")
  have "error_log w1 = error_log w @ login_anomalies (clock w) (ticks w) commits"
    using fold_count_commit_snd [of commits "[]" w] by (simp add: f)
  then show ?thesis
    using kept_no_message [OF Inr]
    by (simp add: get_top_authors_def Inr f print_rows_log print_def)
qed

lemma write_log_appends:
  "error_log (write_log event w) = error_log w @ log_entry (clock w (ticks w)) event"
  by (simp add: write_log_def datetime_now_def)

lemma get_count_old_appends:
  "\<exists>logged. error_log (snd (get_count_old data days_to_old w)) = error_log w @ logged"
  by (auto simp: get_count_old_def datetime_now_def write_log_def split: sum.splits)

lemma get_data_appends:
  assumes "get_data url branch username password net w = Some (r, w')"
  shows "\<exists>logged. error_log w' = error_log w @ logged"
  using assms
  by (auto simp: get_data_def Let_def write_log_def datetime_now_def print_def
           split: sum.splits if_splits)

lemma tally_keys: "fst ` set (tally k dct) \<subseteq> insert k (fst ` set dct)"
  by (induction k dct rule: tally.induct) (auto split: if_splits)

lemma fold_count_commit_keys:
  "fst ` set (fst (fold count_commit commits (dct, w))) \<subseteq>
     fst ` set dct \<union> {l. \<exists>c\<in>set commits. author_login c = Inr l}"
proof (induction commits arbitrary: dct w)
  case Nil
  then show ?case by simp
next
  case (Cons c commits)
  show ?case
  proof (cases "author_login c")
    case (Inl err)
    have "fst (count_commit c (dct, w)) = dct"
      by (simp add: count_commit_def Inl split: prod.splits)
    then obtain w1 where "count_commit c (dct, w) = (dct, w1)"
      by (cases "count_commit c (dct, w)") auto
    then show ?thesis using Cons [of dct w1] by auto
  next
    case (Inr l)
    have "count_commit c (dct, w) = (tally l dct, w)"
      by (simp add: count_commit_def Inr)
    then show ?thesis using Cons [of "tally l dct" w] tally_keys [of l dct] Inr by auto
  qed
qed

lemma most_common_subset: "set (most_common n items) \<subseteq> set items"
  using set_take_subset [of "nat n" "sort_key (\<lambda>kc. - int (snd kc)) items"]
  by (simp add: most_common_def)

lemma print_rows_strings:
  "(\<forall>kv\<in>set rows. \<exists>s. fst kv = JStr s) \<Longrightarrow> fst (print_rows rows w) = Inr JNull"
  by (induction rows arbitrary: w) auto

lemma get_top_authors_completes:
  assumes "window_filter commit_author_date data b e = Inr commits"
    and "\<forall>c\<in>set commits. \<forall>l. author_login c = Inr l \<longrightarrow> (\<exists>s. l = JStr s)"
  shows "fst (get_top_authors data b e top_count w) = Inr JNull"
proof -
  obtain dct w1 where f: "fold count_commit commits ([], w) = (dct, w1)"
    by (cases "fold count_commit commits ([], w)")
  have "fst ` set dct \<subseteq> {l. \<exists>c\<in>set commits. author_login c = Inr l}"
    using fold_count_commit_keys [of commits "[]" w] by (simp add: f)
  with assms(2) have "\<forall>kv\<in>set dct. \<exists>s. fst kv = JStr s" by blast
  with most_common_subset [of top_count dct]
  have "\<forall>kv\<in>set (most_common top_count dct). \<exists>s. fst kv = JStr s" by blast
  then show ?thesis
    using kept_no_message [OF assms(1)]
    by (simp add: get_top_authors_def assms(1) f print_rows_strings)
qed

lemma get_count_old_first_unreadable:
  assumes "created_at row = Inl err"
  shows "get_count_old (JList (row # rows)) days_to_old w =
           (None, write_log (format_exc (frames w err) err) (snd (datetime_now w)))"
  by (simp add: get_count_old_def datetime_now_def old_and_open_def assms)

lemma count_old_rows_error:
  assumes "row \<in> set rows" and "created_at row = Inl err0"
  shows "\<exists>err. count_old_rows now days_to_old rows n = Inl err"
  using assms(1)
proof (induction rows arbitrary: n)
  case Nil
  then show ?case by simp
next
  case (Cons r rows)
  show ?case
  proof (cases "old_and_open now days_to_old r")
    case (Inl err)
    then show ?thesis by simp
  next
    case (Inr c)
    then have "r \<noteq> row" using assms(2) by (auto simp: old_and_open_def)
    with Cons.prems have "row \<in> set rows" by simp
    from Cons.IH [OF this] Inr show ?thesis by simp
  qed
qed

lemma get_count_old_unreadable:
  assumes "py_iter data = Inr rows" and "row \<in> set rows" and "created_at row = Inl err0"
  shows "\<exists>err. get_count_old data days_to_old w =
           (None, write_log (format_exc (frames w err) err) (snd (datetime_now w)))"
proof -
  from count_old_rows_error [OF assms(2,3)] obtain err where
    "count_old_rows (clock w (ticks w)) days_to_old rows 0 = Inl err"
    by blast
  then have "get_count_old data days_to_old w =
           (None, write_log (format_exc (frames w err) err) (snd (datetime_now w)))"
    by (simp add: get_count_old_def datetime_now_def assms(1))
  then show ?thesis by blast
qed

text \<open>
  C2 (amended).  A Record of the window-filtered subset whose author login cannot be
  read (Top-Author Aggregator) or whose state field is absent (State Counter) is
  skipped: the aggregator returns and prints what it does without that Record, and
  the anomaly is written to the Error Log.  The Top-Author Aggregator appends, for
  every skipped commit in turn, one entry holding the instant of the entry, the
  instant the handler read, and the text of the exception, and appends nothing else;
  the State Counter puts the text of the exception in place of the file's content.
  The State Counter always returns its counts; the Top-Author Aggregator ends
  normally when the logins it reads are strings.  A Record whose timestamp cannot be
  read is not skipped: wherever it stands in the Result Set, the window filter raises
  the exception of such a Record, which leaves the aggregator with the log and the
  console untouched.  The Staleness Counter skips nothing: a Record whose creation
  timestamp cannot be read makes it append one entry holding the trace of an
  exception to the Error Log and return no value; when that Record is the first, the
  exception is the one of reading its timestamp.
\<close>

theorem skip_and_log:
  assumes "window_filter commit_author_date commits_data b e = Inr commits"
      and "window_filter created_at raw_data b e = Inr data"
  shows "get_top_authors commits_data b e top_count w =
           (case get_top_authors (JList (filter has_login commits)) b e top_count w of
              (r, w') \<Rightarrow>
                (r, w'\<lparr>error_log := error_log w @ login_anomalies (clock w) (ticks w) commits,
                       ticks := ticks w + 2 * length (filter (\<lambda>c. \<not> has_login c) commits)\<rparr>)) \<and>
         ((login_anomalies (clock w) (ticks w) commits \<noteq> []) = (\<exists>c\<in>set commits. \<not> has_login c)) \<and>
         (\<forall>c\<in>set commits. \<forall>err. author_login c = Inl err \<longrightarrow>
            (\<exists>j pre post. login_anomalies (clock w) (ticks w) commits =
               pre @ log_entry (clock w (Suc j))
                       (str_datetime (clock w j) @ '': '' @ str_exc err) @ post)) \<and>
         ((\<forall>c\<in>set commits. \<forall>l. author_login c = Inr l \<longrightarrow> (\<exists>s. l = JStr s)) \<longrightarrow>
            fst (get_top_authors commits_data b e top_count w) = Inr JNull) \<and>
         get_count raw_data b e w =
           (fst (get_count (JList (filter has_state data)) b e w),
            if \<exists>row\<in>set data. \<not> has_state row then w\<lparr>error_log := quoted ''state''\<rparr> else w) \<and>
         (\<exists>counts. fst (get_count raw_data b e w) = Inr counts) \<and>
         (\<forall>rows row. py_iter bad_data = Inr rows \<and> row \<in> set rows \<and>
              (\<exists>err. commit_author_date row = Inl err) \<longrightarrow>
            (\<exists>r\<in>set rows. \<exists>err. commit_author_date r = Inl err \<and>
               get_top_authors bad_data b e top_count w = (Inl err, w))) \<and>
         (\<forall>rows row. py_iter bad_data = Inr rows \<and> row \<in> set rows \<and>
              (\<exists>err. created_at row = Inl err) \<longrightarrow>
            (\<exists>r\<in>set rows. \<exists>err. created_at r = Inl err \<and>
               get_count bad_data b e w = (Inl err, w))) \<and>
         (\<forall>rows row. py_iter bad_data = Inr rows \<and> row \<in> set rows \<and>
              (\<exists>err. created_at row = Inl err) \<longrightarrow>
            (\<exists>err. get_count_old bad_data days_to_old w =
               (None, write_log (format_exc (frames w err) err) (snd (datetime_now w))))) \<and>
         (\<forall>row rows err. created_at row = Inl err \<longrightarrow>
            get_count_old (JList (row # rows)) days_to_old w =
              (None, write_log (format_exc (frames w err) err) (snd (datetime_now w))))"
proof (intro conjI)
  show "get_top_authors commits_data b e top_count w =
           (case get_top_authors (JList (filter has_login commits)) b e top_count w of
              (r, w') \<Rightarrow>
                (r, w'\<lparr>error_log := error_log w @ login_anomalies (clock w) (ticks w) commits,
                       ticks := ticks w + 2 * length (filter (\<lambda>c. \<not> has_login c) commits)\<rparr>))"
    by (rule get_top_authors_skip [OF assms(1)])
  show "(login_anomalies (clock w) (ticks w) commits \<noteq> []) = (\<exists>c\<in>set commits. \<not> has_login c)"
    by (rule login_anomalies_nonempty)
  show "\<forall>c\<in>set commits. \<forall>err. author_login c = Inl err \<longrightarrow>
            (\<exists>j pre post. login_anomalies (clock w) (ticks w) commits =
               pre @ log_entry (clock w (Suc j))
                       (str_datetime (clock w j) @ '': '' @ str_exc err) @ post)"
    using login_anomalies_entry by blast
  show "(\<forall>c\<in>set commits. \<forall>l. author_login c = Inr l \<longrightarrow> (\<exists>s. l = JStr s)) \<longrightarrow>
            fst (get_top_authors commits_data b e top_count w) = Inr JNull"
    using get_top_authors_completes [OF assms(1)] by blast
  have sub: "window_filter created_at (JList (filter has_state data)) b e = Inr (filter has_state data)"
    by (rule window_filter_sublist [OF assms(2)])
  show "get_count raw_data b e w =
           (fst (get_count (JList (filter has_state data)) b e w),
            if \<exists>row\<in>set data. \<not> has_state row then w\<lparr>error_log := quoted ''state''\<rparr> else w)"
    by (simp add: get_count_result [OF assms(2)] get_count_result [OF sub] with_state_has_state)
  show "\<exists>counts. fst (get_count raw_data b e w) = Inr counts"
    by (simp add: get_count_result [OF assms(2)])
  show "\<forall>rows row. py_iter bad_data = Inr rows \<and> row \<in> set rows \<and>
              (\<exists>err. commit_author_date row = Inl err) \<longrightarrow>
            (\<exists>r\<in>set rows. \<exists>err. commit_author_date r = Inl err \<and>
               get_top_authors bad_data b e top_count w = (Inl err, w))"
  proof (intro allI impI)
    fix rows row
    assume "py_iter bad_data = Inr rows \<and> row \<in> set rows \<and> (\<exists>err. commit_author_date row = Inl err)"
    then obtain err0 where "py_iter bad_data = Inr rows" "row \<in> set rows"
      "commit_author_date row = Inl err0"
      by blast
    from window_filter_error [where ts = commit_author_date and row = row and b = b and e = e,
           OF this]
    obtain r err where
      "r \<in> set rows" "commit_author_date r = Inl err"
      "window_filter commit_author_date bad_data b e = Inl err"
      by blast
    then show "\<exists>r\<in>set rows. \<exists>err. commit_author_date r = Inl err \<and>
                 get_top_authors bad_data b e top_count w = (Inl err, w)"
      by (auto simp: get_top_authors_def)
  qed
  show "\<forall>rows row. py_iter bad_data = Inr rows \<and> row \<in> set rows \<and>
              (\<exists>err. created_at row = Inl err) \<longrightarrow>
            (\<exists>r\<in>set rows. \<exists>err. created_at r = Inl err \<and>
               get_count bad_data b e w = (Inl err, w))"
  proof (intro allI impI)
    fix rows row
    assume "py_iter bad_data = Inr rows \<and> row \<in> set rows \<and> (\<exists>err. created_at row = Inl err)"
    then obtain err0 where "py_iter bad_data = Inr rows" "row \<in> set rows"
      "created_at row = Inl err0"
      by blast
    from window_filter_error [where ts = created_at and row = row and b = b and e = e, OF this]
    obtain r err where
      "r \<in> set rows" "created_at r = Inl err" "window_filter created_at bad_data b e = Inl err"
      by blast
    then show "\<exists>r\<in>set rows. \<exists>err. created_at r = Inl err \<and>
                 get_count bad_data b e w = (Inl err, w)"
      by (auto simp: get_count_def)
  qed
  show "\<forall>rows row. py_iter bad_data = Inr rows \<and> row \<in> set rows \<and>
              (\<exists>err. created_at row = Inl err) \<longrightarrow>
            (\<exists>err. get_count_old bad_data days_to_old w =
               (None, write_log (format_exc (frames w err) err) (snd (datetime_now w))))"
    using get_count_old_unreadable by blast
  show "\<forall>row rows err. created_at row = Inl err \<longrightarrow>
            get_count_old (JList (row # rows)) days_to_old w =
              (None, write_log (format_exc (frames w err) err) (snd (datetime_now w)))"
    using get_count_old_first_unreadable by blast
qed

theorem skip_and_log_counterexample:
  "get_count (JList [JObj [(''number'', JInt 7), (''state'', JStr ''open'')]])
     sample_begin sample_end sample_world =
     (Inl (KeyError ''created_at''), sample_world)"
  by (simp add: get_count_def window_filter_def created_at_def)

text \<open>
  C9 (amended).  In the State Counter, a Record of the window-filtered subset whose
  state field is absent makes the handler replace the content of the Error Log by
  the text of the exception; a Record whose state is present and neither \<open>open\<close> nor
  \<open>closed\<close> writes nothing, and without a Record of the first kind the log is left as
  it was.  Every other write goes through \<^verbatim>\<open>write_log\<close>, which appends: after the
  Top-Author Aggregator, the Staleness Counter and the Paginated Fetcher the log
  starts with what it held before.
\<close>

theorem error_log_overwrite:
  assumes "window_filter created_at raw_data b e = Inr data"
      and "get_data url branch username password net w = Some (r, w')"
  shows "snd (get_count raw_data b e w) =
           (if \<exists>row\<in>set data. \<not> has_state row then w\<lparr>error_log := quoted ''state''\<rparr> else w) \<and>
         error_log (write_log event w) = error_log w @ log_entry (clock w (ticks w)) event \<and>
         (\<exists>logged. error_log (snd (get_top_authors commits_data b e top_count w)) =
                     error_log w @ logged) \<and>
         (\<exists>logged. error_log (snd (get_count_old old_data days_to_old w)) = error_log w @ logged) \<and>
         (\<exists>logged. error_log w' = error_log w @ logged)"
  using get_count_result [OF assms(1), of w] write_log_appends [of event w]
    get_top_authors_appends [of commits_data b e top_count w]
    get_count_old_appends [of old_data days_to_old w] get_data_appends [OF assms(2)]
  by simp

theorem error_log_overwrite_counterexample:
  "state_unexpected (sample_record ''2020-03-02T08:00:00Z'' ''merged'') \<and>
   snd (get_count (JList [sample_record ''2020-03-02T08:00:00Z'' ''merged''])
          sample_begin sample_end sample_world) = sample_world"
  by (simp add: state_unexpected_def get_count_def count_state_def window_defs sample_defs parse_defs)

theorem skip_and_log_witness:
  "fst (get_top_authors
          (JList [sample_commit ''alice'' ''2020-06-01T12:00:00Z'',
                  JObj [(''commit'', JObj [(''author'', JObj [(''date'', JStr ''2020-06-02T12:00:00Z'')])]),
                        (''author'', JNull)]])
          sample_begin sample_end 30 sample_world) = Inr JNull \<and>
   error_log (snd (get_top_authors
          (JList [sample_commit ''alice'' ''2020-06-01T12:00:00Z'',
                  JObj [(''commit'', JObj [(''author'', JObj [(''date'', JStr ''2020-06-02T12:00:00Z'')])]),
                        (''author'', JNull)]])
          sample_begin sample_end 30 sample_world)) =
     ''earlier entry'' @ ''2020-07-01 10:00:01: '' @ [CHR 0x09] @ '' 2020-07-01 10:00:00: '' @
     quoted ''NoneType'' @ '' object is not subscriptable'' \<and>
   (\<exists>j pre post.
      login_anomalies sample_clock 0
        [sample_commit ''alice'' ''2020-06-01T12:00:00Z'',
         JObj [(''commit'', JObj [(''author'', JObj [(''date'', JStr ''2020-06-02T12:00:00Z'')])]),
               (''author'', JNull)]] =
      pre @ log_entry (sample_clock (Suc j))
              (str_datetime (sample_clock j) @ '': '' @
               quoted ''NoneType'' @ '' object is not subscriptable'') @ post) \<and>
   get_count
     (JList [sample_record ''2020-03-01T08:00:00Z'' ''open'',
             JObj [(''created_at'', JStr ''2020-03-03T08:00:00Z'')]])
     sample_begin sample_end sample_world =
     (Inr [(''open'', 1), (''closed'', 0)], sample_world\<lparr>error_log := quoted ''state''\<rparr>) \<and>
   get_top_authors
     (JList [sample_commit ''alice'' ''2020-06-01T12:00:00Z'', JObj [(''state'', JStr ''open'')]])
     sample_begin sample_end 30 sample_world =
     (Inl (KeyError ''commit''), sample_world) \<and>
   get_count
     (JList [sample_record ''2020-03-01T08:00:00Z'' ''open'', JObj [(''state'', JStr ''open'')]])
     sample_begin sample_end sample_world =
     (Inl (KeyError ''created_at''), sample_world) \<and>
   fst (get_count_old
          (JList [sample_record ''2020-03-01T08:00:00Z'' ''open'', JObj [(''state'', JStr ''open'')]])
          14 sample_world) = None \<and>
   get_count_old
     (JList [JObj [(''state'', JStr ''open'')], sample_record ''2020-03-01T08:00:00Z'' ''open''])
     14 sample_world =
     (None,
      write_log (format_exc (sample_frames (KeyError ''created_at'')) (KeyError ''created_at''))
        (snd (datetime_now sample_world)))"
proof -
  let ?c1 = "sample_commit ''alice'' ''2020-06-01T12:00:00Z''"
  let ?c2 = "JObj [(''commit'', JObj [(''author'', JObj [(''date'', JStr ''2020-06-02T12:00:00Z'')])]),
                   (''author'', JNull)]"
  let ?r1 = "sample_record ''2020-03-01T08:00:00Z'' ''open''"
  let ?r2 = "JObj [(''created_at'', JStr ''2020-03-03T08:00:00Z'')]"
  let ?x = "JObj [(''state'', JStr ''open'')]"
  let ?msg = "quoted ''NoneType'' @ '' object is not subscriptable''"
  have h1: "window_filter commit_author_date (JList [?c1, ?c2]) sample_begin sample_end =
              Inr [?c1, ?c2]"
    by (simp add: window_defs sample_defs parse_defs)
  have h2: "window_filter created_at (JList [?r1, ?r2]) sample_begin sample_end = Inr [?r1, ?r2]"
    by (simp add: window_defs sample_defs parse_defs)
  have l1: "author_login ?c1 = Inr (JStr ''alice'')"
    by (simp add: author_login_def sample_commit_def)
  have l2: "author_login ?c2 = Inl (TypeError ?msg)"
    by (simp add: author_login_def)
  have s1: "has_state ?r1" and s2: "\<not> has_state ?r2"
    by (simp_all add: has_state_def sample_record_def)
  have t1: "commit_author_date ?c1 =
              Inr \<lparr>year = 2020, month = 6, day = 1, hour = 12, minute = 0, second = 0, microsecond = 0\<rparr>"
    by (simp add: commit_author_date_def sample_commit_def parse_defs)
  have tx: "commit_author_date ?x = Inl (KeyError ''commit'')"
    by (simp add: commit_author_date_def)
  have u1: "created_at ?r1 =
              Inr \<lparr>year = 2020, month = 3, day = 1, hour = 8, minute = 0, second = 0, microsecond = 0\<rparr>"
    by (simp add: created_at_def sample_record_def parse_defs)
  have ux: "created_at ?x = Inl (KeyError ''created_at'')"
    by (simp add: created_at_def)
  have g: "get_count (JList [?r1]) sample_begin sample_end sample_world =
             (Inr [(''open'', 1), (''closed'', 0)], sample_world)"
    by (simp add: get_count_def count_state_def dict_add_def window_defs sample_defs parse_defs)
  note T = skip_and_log [OF h1 h2, of 30 sample_world "JList [?r1, ?x]" 14]
  note C = skip_and_log [OF h1 h2, of 30 sample_world "JList [?c1, ?x]" 14]
  note T1 = T [THEN conjunct1]
  note T3 = T [THEN conjunct2, THEN conjunct2, THEN conjunct1]
  note T4 = T [THEN conjunct2, THEN conjunct2, THEN conjunct2, THEN conjunct1]
  note T5 = T [THEN conjunct2, THEN conjunct2, THEN conjunct2, THEN conjunct2, THEN conjunct1]
  note C7 = C [THEN conjunct2, THEN conjunct2, THEN conjunct2, THEN conjunct2, THEN conjunct2,
               THEN conjunct2, THEN conjunct1]
  note T8 = T [THEN conjunct2, THEN conjunct2, THEN conjunct2, THEN conjunct2, THEN conjunct2,
               THEN conjunct2, THEN conjunct2, THEN conjunct1]
  note T9 = T [THEN conjunct2, THEN conjunct2, THEN conjunct2, THEN conjunct2, THEN conjunct2,
               THEN conjunct2, THEN conjunct2, THEN conjunct2, THEN conjunct1]
  note T10 = T [THEN conjunct2, THEN conjunct2, THEN conjunct2, THEN conjunct2, THEN conjunct2,
                THEN conjunct2, THEN conjunct2, THEN conjunct2, THEN conjunct2]
  have good: "filter has_login [?c1, ?c2] = [?c1]"
    by (simp add: has_login_def l1 l2)
  have la: "login_anomalies (clock sample_world) (ticks sample_world) [?c1, ?c2] =
              log_entry (sample_clock 1) (str_datetime (sample_clock 0) @ '': '' @ ?msg)"
    by (simp add: l1 l2 sample_world_def)
  have shown: "log_entry (sample_clock 1) (str_datetime (sample_clock 0) @ '': '' @ ?msg) =
               ''2020-07-01 10:00:01: '' @ [CHR 0x09] @ '' 2020-07-01 10:00:00: '' @ ?msg"
    by (simp add: sample_clock_def log_entry_def str_datetime_def zfill_def str_nat.simps
          digit_char_def)
  obtain r w' where rw: "get_top_authors (JList [?c1]) sample_begin sample_end 30 sample_world = (r, w')"
    by (cases "get_top_authors (JList [?c1]) sample_begin sample_end 30 sample_world")
  have "error_log (snd (get_top_authors (JList [?c1, ?c2]) sample_begin sample_end 30
                     sample_world)) =
          error_log sample_world @
          log_entry (sample_clock 1) (str_datetime (sample_clock 0) @ '': '' @ ?msg)"
    unfolding T1 good rw la by simp
  then have p2: "error_log (snd (get_top_authors (JList [?c1, ?c2]) sample_begin sample_end 30
                     sample_world)) =
          ''earlier entry'' @ ''2020-07-01 10:00:01: '' @ [CHR 0x09] @ '' 2020-07-01 10:00:00: '' @ ?msg"
    unfolding shown by (simp add: sample_world_def)
  have mem: "?c2 \<in> set [?c1, ?c2]" by simp
  from T3 [rule_format, OF mem l2]
  have p3: "\<exists>j pre post. login_anomalies sample_clock 0 [?c1, ?c2] =
              pre @ log_entry (sample_clock (Suc j)) (str_datetime (sample_clock j) @ '': '' @ ?msg) @ post"
    by (simp add: sample_world_def)
  have "\<forall>c\<in>set [?c1, ?c2]. \<forall>l. author_login c = Inr l \<longrightarrow> (\<exists>s. l = JStr s)"
    by (simp add: l1 l2)
  with T4 have p1: "fst (get_top_authors (JList [?c1, ?c2]) sample_begin sample_end 30 sample_world) =
                     Inr JNull"
    by (rule mp)
  have fs: "filter has_state [?r1, ?r2] = [?r1]" using s1 s2 by simp
  have ex: "\<exists>row\<in>set [?r1, ?r2]. \<not> has_state row" using s2 by simp
  have p4: "get_count (JList [?r1, ?r2]) sample_begin sample_end sample_world =
                     (Inr [(''open'', 1), (''closed'', 0)], sample_world\<lparr>error_log := quoted ''state''\<rparr>)"
    unfolding T5 fs g using ex by simp
  have "\<exists>r\<in>set [?c1, ?x]. \<exists>err. commit_author_date r = Inl err \<and>
          get_top_authors (JList [?c1, ?x]) sample_begin sample_end 30 sample_world =
            (Inl err, sample_world)"
    by (rule C7 [rule_format, of "[?c1, ?x]" ?x]) (simp add: tx)
  then have p5: "get_top_authors (JList [?c1, ?x]) sample_begin sample_end 30 sample_world =
                   (Inl (KeyError ''commit''), sample_world)"
    by (auto simp: t1 tx)
  have "\<exists>r\<in>set [?r1, ?x]. \<exists>err. created_at r = Inl err \<and>
          get_count (JList [?r1, ?x]) sample_begin sample_end sample_world = (Inl err, sample_world)"
    by (rule T8 [rule_format, of "[?r1, ?x]" ?x]) (simp add: ux)
  then have p6: "get_count (JList [?r1, ?x]) sample_begin sample_end sample_world =
                   (Inl (KeyError ''created_at''), sample_world)"
    by (auto simp: u1 ux)
  have "\<exists>err. get_count_old (JList [?r1, ?x]) 14 sample_world =
          (None, write_log (format_exc (frames sample_world err) err) (snd (datetime_now sample_world)))"
    by (rule T9 [rule_format, of "[?r1, ?x]" ?x]) (simp add: ux)
  then have p7: "fst (get_count_old (JList [?r1, ?x]) 14 sample_world) = None"
    by auto
  from T10 [rule_format, of ?x "KeyError ''created_at''" "[?r1]", OF ux]
  have p8: "get_count_old (JList [?x, ?r1]) 14 sample_world =
      (None,
       write_log (format_exc (sample_frames (KeyError ''created_at'')) (KeyError ''created_at''))
         (snd (datetime_now sample_world)))"
    by (simp add: sample_world_def)
  from p1 p2 p3 p4 p5 p6 p7 p8 show ?thesis by blast
qed

theorem error_log_overwrite_witness:
  "snd (get_count
          (JList [sample_record ''2020-03-01T08:00:00Z'' ''open'',
                  JObj [(''created_at'', JStr ''2020-03-03T08:00:00Z'')]])
          sample_begin sample_end sample_world) = sample_world\<lparr>error_log := quoted ''state''\<rparr> \<and>
   get_data ''https://api.github.com/repos/o/r/issues'' ''master'' ''user'' ''secret''
     sample_net sample_world =
     Some (Inl (SystemExit 1),
           write_log (''https://api.github.com/repos/o/r/issues?state=all: 404'' @ [CHR 0x0A])
             (print ''Getting data by URL failed. See error.log'' sample_world))"
proof -
  let ?r1 = "sample_record ''2020-03-01T08:00:00Z'' ''open''"
  let ?r2 = "JObj [(''created_at'', JStr ''2020-03-03T08:00:00Z'')]"
  have h1: "window_filter created_at (JList [?r1, ?r2]) sample_begin sample_end = Inr [?r1, ?r2]"
    by (simp add: window_defs sample_defs parse_defs)
  have h2: "get_data ''https://api.github.com/repos/o/r/issues'' ''master'' ''user'' ''secret''
              sample_net sample_world =
            Some (Inl (SystemExit 1),
                  write_log (''https://api.github.com/repos/o/r/issues?state=all: 404'' @ [CHR 0x0A])
                    (print ''Getting data by URL failed. See error.log'' sample_world))"
    by (simp add: get_data_def sample_net_def resp_ok_def str_nat.simps digit_char_def)
  have s: "has_state ?r1" "\<not> has_state ?r2"
    by (simp_all add: has_state_def sample_record_def)
  have ex: "\<exists>row\<in>set [?r1, ?r2]. \<not> has_state row" using s by simp
  from error_log_overwrite [OF h1 h2, THEN conjunct1] ex
  have "snd (get_count (JList [?r1, ?r2]) sample_begin sample_end sample_world) =
          sample_world\<lparr>error_log := quoted ''state''\<rparr>"
    by (simp only: if_True)
  with h2 show ?thesis by (rule conjI [rotated])
qed

section \<open>The three-commit example\<close>

lemma commit_author_date_sample:
  "commit_author_date (sample_commit login date) = strptime date"
  by (simp add: commit_author_date_def sample_commit_def)

lemma author_login_sample: "author_login (sample_commit login date) = Inr (JStr login)"
  by (simp add: author_login_def sample_commit_def)

text \<open>
  C8 (amended).  On three commits by \<open>alice\<close>, \<open>bob\<close> and \<open>alice\<close>, all dated \<open>T0\<close>, with a
  Time Window containing \<open>T0\<close> and \<open>top_count = 2\<close>, the ranking the Top-Author Aggregator
  computes is \<open>[(alice, 2), (bob, 1)]\<close>; it prints the header, the rule and the two rows
  \<open>alice 2\<close>, \<open>bob 1\<close> in this order, writes nothing to the Error Log, and the call
  evaluates to \<^verbatim>\<open>None\<close>: the ranked list is printed, not returned.
\<close>

theorem top_authors_example:
  assumes "strptime T0 = Inr t0" and "dt_le b t0" and "dt_le t0 e"
  shows "most_common 2
           (fst (fold count_commit
                   [sample_commit ''alice'' T0, sample_commit ''bob'' T0, sample_commit ''alice'' T0]
                   ([], w))) = [(JStr ''alice'', 2), (JStr ''bob'', 1)] \<and>
         get_top_authors
           (JList [sample_commit ''alice'' T0, sample_commit ''bob'' T0, sample_commit ''alice'' T0])
           b e 2 w =
           (Inr JNull,
            w\<lparr>stdout := stdout w @
                 [''       Login        |Commits'', ''______________________________'',
                  ''       alice        |    2'', ''        bob         |    1'']\<rparr>)"
proof -
  let ?cs = "[sample_commit ''alice'' T0, sample_commit ''bob'' T0, sample_commit ''alice'' T0]"
  have wf: "window_filter commit_author_date (JList ?cs) b e = Inr ?cs"
    by (simp add: window_filter_def commit_author_date_sample assms)
  have f: "fold count_commit ?cs ([], w) = ([(JStr ''alice'', 2), (JStr ''bob'', 1)], w)"
    by (simp add: count_commit_def author_login_sample)
  have mc: "most_common 2 [(JStr ''alice'', 2), (JStr ''bob'', 1)] =
              [(JStr ''alice'', 2), (JStr ''bob'', 1)]"
    by (simp add: most_common_def)
  have nm: "JStr ''message'' \<notin> set ?cs"
    by (simp add: sample_commit_def)
  have n: "str_nat 2 = ''2''" "str_nat 1 = ''1''"
    by (simp_all add: str_nat.simps digit_char_def)
  have cells: "center20 ''alice'' = ''       alice        ''"
    "center20 ''bob'' = ''        bob         ''"
    "rjust5 (str_nat 2) = ''    2''" "rjust5 (str_nat (Suc 0)) = ''    1''"
    by code_simp+
  have pr: "print_rows [(JStr ''alice'', 2), (JStr ''bob'', 1)] w' =
              (Inr JNull, w'\<lparr>stdout := stdout w' @
                 [''       alice        |    2'', ''        bob         |    1'']\<rparr>)" for w'
    by (simp add: print_def cells)
  have hd: "center20 ''Login'' @ ''|'' @ rjust5 ''Commits'' = ''       Login        |Commits''"
    by code_simp
  have ln: "replicate 30 CHR ''_'' = ''______________________________''"
    by code_simp
  show ?thesis
    unfolding get_top_authors_def wf sum.case if_P [OF nm] f prod.case fst_conv mc hd ln pr
    by (simp add: print_def)
qed

theorem top_authors_example_counterexample:
  "fst (get_top_authors
          (JList [sample_commit ''alice'' ''2020-06-01T12:00:00Z'',
                  sample_commit ''bob'' ''2020-06-01T12:00:00Z'',
                  sample_commit ''alice'' ''2020-06-01T12:00:00Z''])
          sample_begin sample_end 2 sample_world) = Inr JNull \<and>
   fst (get_top_authors
          (JList [sample_commit ''alice'' ''2020-06-01T12:00:00Z'',
                  sample_commit ''bob'' ''2020-06-01T12:00:00Z'',
                  sample_commit ''alice'' ''2020-06-01T12:00:00Z''])
          sample_begin sample_end 2 sample_world) \<noteq>
     Inr (JList [JList [JStr ''alice'', JInt 2], JList [JStr ''bob'', JInt 1]])"
proof -
  have wf: "window_filter commit_author_date
          (JList [sample_commit ''alice'' ''2020-06-01T12:00:00Z'',
                  sample_commit ''bob'' ''2020-06-01T12:00:00Z'',
                  sample_commit ''alice'' ''2020-06-01T12:00:00Z''])
          sample_begin sample_end =
       Inr [sample_commit ''alice'' ''2020-06-01T12:00:00Z'',
                  sample_commit ''bob'' ''2020-06-01T12:00:00Z'',
                  sample_commit ''alice'' ''2020-06-01T12:00:00Z'']"
    by (simp add: window_filter_def commit_author_date_sample parse_defs dt_le_def dt_key_def
          sample_begin_def sample_end_def)
  have "\<forall>c\<in>set [sample_commit ''alice'' ''2020-06-01T12:00:00Z'',
                  sample_commit ''bob'' ''2020-06-01T12:00:00Z'',
                  sample_commit ''alice'' ''2020-06-01T12:00:00Z'']. \<forall>l. author_login c = Inr l \<longrightarrow> (\<exists>s. l = JStr s)"
    by (simp add: author_login_sample)
  from get_top_authors_completes [OF wf this] show ?thesis by simp
qed

theorem top_authors_example_witness:
  "get_top_authors
     (JList [sample_commit ''alice'' ''2020-06-01T12:00:00Z'',
             sample_commit ''bob'' ''2020-06-01T12:00:00Z'',
             sample_commit ''alice'' ''2020-06-01T12:00:00Z''])
     sample_begin sample_end 2 sample_world =
     (Inr JNull,
      sample_world\<lparr>stdout :=
        [''       Login        |Commits'', ''______________________________'',
         ''       alice        |    2'', ''        bob         |    1'']\<rparr>)"
proof -
  have h1: "strptime ''2020-06-01T12:00:00Z'' =
              Inr \<lparr>year = 2020, month = 6, day = 1, hour = 12, minute = 0, second = 0, microsecond = 0\<rparr>"
    by (simp add: parse_defs)
  have h2: "dt_le sample_begin
              \<lparr>year = 2020, month = 6, day = 1, hour = 12, minute = 0, second = 0, microsecond = 0\<rparr>"
    by (simp add: dt_le_def dt_key_def sample_begin_def)
  have h3: "dt_le \<lparr>year = 2020, month = 6, day = 1, hour = 12, minute = 0, second = 0, microsecond = 0\<rparr>
              sample_end"
    by (simp add: dt_le_def dt_key_def sample_end_def)
  from top_authors_example [OF h1 h2 h3, of sample_world, THEN conjunct2] show ?thesis
    by (simp add: sample_world_def)
qed

section \<open>Paginated Fetcher\<close>

text \<open>
  C6.  Whenever the first response of a fetch is not a success (\<^verbatim>\<open>res.ok\<close> is false:
  a 4xx or 5xx status), the Paginated Fetcher prints its message, appends to the
  Error Log one entry made of the time, the URL of the response and its status code
  in decimal, and ends with \<^verbatim>\<open>SystemExit(1)\<close>; it returns no data, and no later page is
  requested.
\<close>

theorem get_data_failure:
  assumes "net \<lparr>req_url = url, req_params = params_for url branch,
                req_auth = (username, password)\<rparr> = Inr res"
      and "\<not> resp_ok res"
  shows "get_data url branch username password net w =
           Some (Inl (SystemExit 1),
                 w\<lparr>error_log := error_log w @
                      log_entry (clock w (ticks w))
                        (resp_url res @ '': '' @ str_nat (status_code res) @ [CHR 0x0A]),
                   stdout := stdout w @ [''Getting data by URL failed. See error.log''],
                   ticks := Suc (ticks w)\<rparr>)"
  using assms by (simp add: get_data_def Let_def write_log_def datetime_now_def print_def)

theorem get_data_failure_witness:
  "get_data ''https://api.github.com/repos/o/r/issues'' ''master'' ''user'' ''secret''
     sample_net sample_world =
   Some (Inl (SystemExit 1),
         sample_world\<lparr>error_log := ''earlier entry'' @ ''2020-07-01 10:00:00: '' @ [CHR 0x09] @
                        '' https://api.github.com/repos/o/r/issues?state=all: 404'' @ [CHR 0x0A],
                      stdout := [''Getting data by URL failed. See error.log''],
                      ticks := 1\<rparr>)"
proof -
  let ?res = "\<lparr>status_code = 404,
               resp_url = ''https://api.github.com/repos/o/r/issues?state=all'',
               body = Some not_found, next_link = None\<rparr>"
  have h1: "sample_net \<lparr>req_url = ''https://api.github.com/repos/o/r/issues'',
                        req_params = params_for ''https://api.github.com/repos/o/r/issues'' ''master'',
                        req_auth = (''user'', ''secret'')\<rparr> = Inr ?res"
    by (simp add: sample_net_def)
  have h2: "\<not> resp_ok ?res" by (simp add: resp_ok_def)
  from get_data_failure [where net = sample_net and w = sample_world
                           and url = "''https://api.github.com/repos/o/r/issues''"
                           and branch = "''master''" and username = "''user''"
                           and password = "''secret''", OF h1 h2]
  show ?thesis
    by (simp add: sample_world_def sample_clock_def log_entry_def str_datetime_def zfill_def
          str_nat.simps digit_char_def)
qed

lemma follow_pages_step:
  assumes "next_link res = Some u"
      and "net \<lparr>req_url = u, req_params = params, req_auth = auth\<rparr> = Inr res'"
  shows "follow_pages net params auth data res =
           (case list_extend data res' of
              Inl err \<Rightarrow> Some (Inl err)
            | Inr data' \<Rightarrow> follow_pages net params auth data' res')"
  by (subst follow_pages.simps) (simp add: assms)

lemma follow_pages_last:
  assumes "next_link res = None"
  shows "follow_pages net params auth data res = Some (Inr data)"
  by (subst follow_pages.simps) (simp add: assms)

text \<open>
  C10 (amended).  Only the first response's status is checked.  A follow-up response is
  never asked for its status, and nothing is printed or logged for it: after a
  successful first page the fetcher returns what the loop over the pages gives and
  leaves the Error Log and the console as they were.  What the loop does with a
  follow-up response depends on its body alone.  A body that decodes to an array, an
  object or a string is iterated, and the loop goes on with the Result Set extended by
  the elements, the keys or the characters; so when such a response is the last page,
  the fetcher returns the first page's Records followed by those items, and an error
  object of a later page is merged as its key strings.  A body that decodes to
  \<^verbatim>\<open>null\<close>, a number or a boolean cannot be iterated: \<^verbatim>\<open>extend\<close> raises
  \<^verbatim>\<open>TypeError\<close>.  A body that is not JSON makes decoding raise.  In both cases
  the fetch ends with that exception.
\<close>

theorem follow_up_unchecked:
  assumes "next_link res = Some u"
      and "net \<lparr>req_url = u, req_params = params, req_auth = auth\<rparr> = Inr res'"
  shows "(\<forall>j items. body res' = Some j \<and> py_iter j = Inr items \<longrightarrow>
            follow_pages net params auth (JList xs) res =
              follow_pages net params auth (JList (xs @ items)) res') \<and>
         (\<forall>j items. body res' = Some j \<and> py_iter j = Inr items \<and> next_link res' = None \<and>
            net \<lparr>req_url = url, req_params = params_for url branch,
                 req_auth = (username, password)\<rparr> = Inr res \<and>
            resp_ok res \<and> body res = Some (JList xs) \<and>
            params = params_for url branch \<and> auth = (username, password) \<longrightarrow>
            get_data url branch username password net w = Some (Inr (JList (xs @ items)), w)) \<and>
         (body res' = None \<longrightarrow>
            follow_pages net params auth (JList xs) res =
              Some (Inl (JSONDecodeError ''Expecting value: line 1 column 1 (char 0)''))) \<and>
         (\<forall>j. body res' = Some j \<and> (j = JNull \<or> (\<exists>b. j = JBool b) \<or> (\<exists>i. j = JInt i)) \<longrightarrow>
            follow_pages net params auth (JList xs) res =
              Some (Inl (TypeError (quoted (type_name j) @ '' object is not iterable'')))) \<and>
         (\<forall>j. body res' = Some j \<longrightarrow>
            (\<exists>ys. j = JList ys \<and> py_iter j = Inr ys) \<or>
            (\<exists>kvs. j = JObj kvs \<and> py_iter j = Inr (map (\<lambda>kv. JStr (fst kv)) kvs)) \<or>
            (\<exists>s. j = JStr s \<and> py_iter j = Inr (map (\<lambda>c. JStr [c]) s)) \<or>
            j = JNull \<or> (\<exists>b. j = JBool b) \<or> (\<exists>i. j = JInt i)) \<and>
         (net \<lparr>req_url = url, req_params = params_for url branch,
               req_auth = (username, password)\<rparr> = Inr res \<and>
          resp_ok res \<and> body res = Some (JList xs) \<and>
          params = params_for url branch \<and> auth = (username, password) \<longrightarrow>
            get_data url branch username password net w =
              map_option (\<lambda>r. (r, w)) (follow_pages net params auth (JList xs) res))"
proof -
  note step = follow_pages_step [where net = net and res = res and res' = res' and u = u
                and params = params and auth = auth, OF assms]
  show ?thesis
  proof (intro conjI allI impI)
    fix j items
    assume "body res' = Some j \<and> py_iter j = Inr items"
    then show "follow_pages net params auth (JList xs) res =
                 follow_pages net params auth (JList (xs @ items)) res'"
      by (simp add: step list_extend_def resp_json_def)
  next
    fix j items
    assume a: "body res' = Some j \<and> py_iter j = Inr items \<and> next_link res' = None \<and>
              net \<lparr>req_url = url, req_params = params_for url branch,
                   req_auth = (username, password)\<rparr> = Inr res \<and>
              resp_ok res \<and> body res = Some (JList xs) \<and>
              params = params_for url branch \<and> auth = (username, password)"
    then have b: "body res' = Some j" "py_iter j = Inr items" "next_link res' = None"
      and f: "net \<lparr>req_url = url, req_params = params_for url branch,
                    req_auth = (username, password)\<rparr> = Inr res"
             "resp_ok res" "body res = Some (JList xs)"
      and pa: "params_for url branch = params" "(username, password) = auth"
      by simp_all
    have "follow_pages net params auth (JList xs) res = Some (Inr (JList (xs @ items)))"
      by (simp add: step list_extend_def resp_json_def follow_pages_last b)
    then have fp: "follow_pages net (params_for url branch) (username, password) (JList xs) res =
                     Some (Inr (JList (xs @ items)))"
      by (simp add: pa)
    show "get_data url branch username password net w = Some (Inr (JList (xs @ items)), w)"
      by (simp add: get_data_def Let_def f resp_json_def fp)
  next
    assume "body res' = None"
    then show "follow_pages net params auth (JList xs) res =
                 Some (Inl (JSONDecodeError ''Expecting value: line 1 column 1 (char 0)''))"
      by (simp add: step list_extend_def resp_json_def)
  next
    fix j
    assume "body res' = Some j \<and> (j = JNull \<or> (\<exists>b. j = JBool b) \<or> (\<exists>i. j = JInt i))"
    then show "follow_pages net params auth (JList xs) res =
                 Some (Inl (TypeError (quoted (type_name j) @ '' object is not iterable'')))"
      by (auto simp: step list_extend_def resp_json_def)
  next
    fix j
    show "(\<exists>ys. j = JList ys \<and> py_iter j = Inr ys) \<or>
          (\<exists>kvs. j = JObj kvs \<and> py_iter j = Inr (map (\<lambda>kv. JStr (fst kv)) kvs)) \<or>
          (\<exists>s. j = JStr s \<and> py_iter j = Inr (map (\<lambda>c. JStr [c]) s)) \<or>
          j = JNull \<or> (\<exists>b. j = JBool b) \<or> (\<exists>i. j = JInt i)"
      by (cases j) simp_all
  next
    assume a: "net \<lparr>req_url = url, req_params = params_for url branch,
                    req_auth = (username, password)\<rparr> = Inr res \<and>
               resp_ok res \<and> body res = Some (JList xs) \<and>
               params = params_for url branch \<and> auth = (username, password)"
    then have f: "net \<lparr>req_url = url, req_params = params_for url branch,
                       req_auth = (username, password)\<rparr> = Inr res"
             "resp_ok res" "body res = Some (JList xs)"
      and pa: "params = params_for url branch" "auth = (username, password)"
      by simp_all
    show "get_data url branch username password net w =
            map_option (\<lambda>r. (r, w)) (follow_pages net params auth (JList xs) res)"
      by (simp add: get_data_def Let_def f resp_json_def pa)
  qed
qed

theorem follow_up_unchecked_counterexample:
  "get_data ''https://api.github.com/repos/o/r/pulls'' ''master'' ''user'' ''secret''
     sample_net_html sample_world =
     Some (Inl (JSONDecodeError ''Expecting value: line 1 column 1 (char 0)''), sample_world)"
proof -
  let ?p = "[(''state'', ''all''), (''base'', ''master'')]"
  let ?res = "\<lparr>status_code = 200,
             resp_url = ''https://api.github.com/repos/o/r/pulls?state=all&base=master'',
             body = Some (JList [sample_record ''2020-03-01T08:00:00Z'' ''open'']),
             next_link = Some ''https://api.github.com/repositories/1/pulls?page=2''\<rparr>"
  have p: "params_for ''https://api.github.com/repos/o/r/pulls'' ''master'' = ?p"
    by (simp add: params_for_def last_segment_def Let_def)
  have "follow_pages sample_net_html ?p (''user'', ''secret'')
          (JList [sample_record ''2020-03-01T08:00:00Z'' ''open'']) ?res =
        Some (Inl (JSONDecodeError ''Expecting value: line 1 column 1 (char 0)''))"
    by (subst follow_pages.simps)
       (simp add: sample_net_html_def sample_net_def list_extend_def resp_json_def)
  then show ?thesis
    by (simp add: get_data_def p sample_net_html_def sample_net_def resp_ok_def resp_json_def)
qed

theorem follow_up_unchecked_witness:
  "\<not> resp_ok \<lparr>status_code = 404,
             resp_url = ''https://api.github.com/repositories/1/pulls?page=2&state=all&base=master'',
             body = Some not_found, next_link = None\<rparr> \<and>
   get_data ''https://api.github.com/repos/o/r/pulls'' ''master'' ''user'' ''secret''
     sample_net sample_world =
     Some (Inr (JList [sample_record ''2020-03-01T08:00:00Z'' ''open'',
                       JStr ''message'', JStr ''documentation_url'']),
           sample_world) \<and>
   get_data ''https://api.github.com/repos/o/r/pulls'' ''master'' ''user'' ''secret''
     sample_net_null sample_world =
     Some (Inl (TypeError (quoted ''NoneType'' @ '' object is not iterable'')), sample_world)"
proof -
  let ?url = "''https://api.github.com/repos/o/r/pulls''"
  let ?u = "''https://api.github.com/repositories/1/pulls?page=2''"
  let ?p = "[(''state'', ''all''), (''base'', ''master'')]"
  let ?xs = "[sample_record ''2020-03-01T08:00:00Z'' ''open'']"
  let ?res = "\<lparr>status_code = 200,
             resp_url = ''https://api.github.com/repos/o/r/pulls?state=all&base=master'',
             body = Some (JList ?xs),
             next_link = Some ?u\<rparr>"
  let ?res' = "\<lparr>status_code = 404,
             resp_url = ''https://api.github.com/repositories/1/pulls?page=2&state=all&base=master'',
             body = Some not_found, next_link = None\<rparr>"
  let ?rnull = "\<lparr>status_code = 500,
             resp_url = ''https://api.github.com/repositories/1/pulls?page=2&state=all&base=master'',
             body = Some JNull, next_link = None\<rparr>"
  have p: "params_for ?url ''master'' = ?p"
    by (simp add: params_for_def last_segment_def Let_def)
  have h1: "next_link ?res = Some ?u" by simp
  have h2: "sample_net \<lparr>req_url = ?u, req_params = ?p, req_auth = (''user'', ''secret'')\<rparr> = Inr ?res'"
    by (simp add: sample_net_def)
  have h3: "sample_net \<lparr>req_url = ?url, req_params = params_for ?url ''master'',
                         req_auth = (''user'', ''secret'')\<rparr> = Inr ?res"
    by (simp add: sample_net_def)
  have h4: "py_iter not_found = Inr [JStr ''message'', JStr ''documentation_url'']"
    by (simp add: not_found_def)
  have h5: "\<not> resp_ok ?res'" "resp_ok ?res" by (simp_all add: resp_ok_def)
  note T = follow_up_unchecked [where net = sample_net and res = ?res and res' = ?res'
             and params = ?p and auth = "(''user'', ''secret'')" and u = ?u
             and xs = ?xs
             and url = ?url and branch = "''master''" and username = "''user''"
             and password = "''secret''" and w = sample_world,
             OF h1 h2, THEN conjunct2, THEN conjunct1, rule_format,
             of not_found "[JStr ''message'', JStr ''documentation_url'']"]
  have "get_data ?url ''master'' ''user'' ''secret'' sample_net sample_world =
          Some (Inr (JList (?xs @ [JStr ''message'', JStr ''documentation_url''])), sample_world)"
    by (rule T) (use h3 in \<open>simp add: h4 h5 p\<close>)
  then have p1: "get_data ?url ''master'' ''user'' ''secret'' sample_net sample_world =
          Some (Inr (JList [sample_record ''2020-03-01T08:00:00Z'' ''open'',
                            JStr ''message'', JStr ''documentation_url'']), sample_world)"
    by simp
  have n2: "sample_net_null \<lparr>req_url = ?u, req_params = ?p, req_auth = (''user'', ''secret'')\<rparr> =
              Inr ?rnull"
    by (simp add: sample_net_null_def)
  have n3: "sample_net_null \<lparr>req_url = ?url, req_params = params_for ?url ''master'',
                              req_auth = (''user'', ''secret'')\<rparr> = Inr ?res"
    by (simp add: sample_net_null_def sample_net_def)
  note N = follow_up_unchecked [where net = sample_net_null and res = ?res and res' = ?rnull
             and params = ?p and auth = "(''user'', ''secret'')" and u = ?u
             and xs = ?xs
             and url = ?url and branch = "''master''" and username = "''user''"
             and password = "''secret''" and w = sample_world,
             OF h1 n2]
  note N4 = N [THEN conjunct2, THEN conjunct2, THEN conjunct2, THEN conjunct1, rule_format,
               of JNull]
  note N6 = N [THEN conjunct2, THEN conjunct2, THEN conjunct2, THEN conjunct2, THEN conjunct2]
  have fp: "follow_pages sample_net_null ?p (''user'', ''secret'') (JList ?xs) ?res =
              Some (Inl (TypeError (quoted (type_name JNull) @ '' object is not iterable'')))"
    by (rule N4) simp
  have "get_data ?url ''master'' ''user'' ''secret'' sample_net_null sample_world =
          map_option (\<lambda>r. (r, sample_world))
            (follow_pages sample_net_null ?p (''user'', ''secret'') (JList ?xs) ?res)"
    by (rule N6 [rule_format]) (use n3 in \<open>simp add: h5 p\<close>)
  then have p2: "get_data ?url ''master'' ''user'' ''secret'' sample_net_null sample_world =
          Some (Inl (TypeError (quoted ''NoneType'' @ '' object is not iterable'')), sample_world)"
    unfolding fp by simp
  from h5(1) p1 p2 show ?thesis by blast
qed

section \<open>Date Normalizer round trip\<close>

lemma of_char_digit: "digit c \<Longrightarrow> (of_char c :: nat) = 48 + digit_val c"
  by (auto simp: digit_def digit_val_def)

lemma digit_val_less: "digit c \<Longrightarrow> digit_val c < 10"
  by (auto simp: digit_def digit_val_def)

lemma digit_eq_iff:
  assumes "digit c" and "digit k"
  shows "(c = k) = (digit_val c = digit_val k)"
  using assms by (auto simp: digit_def digit_val_def)

lemma digit_between:
  assumes "digit c" and "digit lo" and "digit hi"
  shows "between lo hi c = (digit_val lo \<le> digit_val c \<and> digit_val c \<le> digit_val hi)"
  using assms by (simp add: between_def of_char_digit)

lemma digit_not_sep:
  assumes "digit c"
  shows "c \<noteq> CHR ''-''" "c \<noteq> CHR '' ''" "c \<noteq> CHR '':''" "c \<noteq> CHR ''T''" "c \<noteq> CHR ''t''"
    "c \<noteq> CHR ''Z''" "c \<noteq> CHR ''z''"
  using assms by (auto simp: digit_def)

lemma digit_literal:
  "digit CHR ''0''" "digit CHR ''1''" "digit CHR ''2''" "digit CHR ''3''" "digit CHR ''5''"
  "digit CHR ''6''" "digit CHR ''9''"
  by (simp_all add: digit_def)

lemma digit_val_literal:
  "digit_val CHR ''0'' = 0" "digit_val CHR ''1'' = 1" "digit_val CHR ''2'' = 2"
  "digit_val CHR ''3'' = 3" "digit_val CHR ''5'' = 5" "digit_val CHR ''6'' = 6"
  "digit_val CHR ''9'' = 9"
  by (simp_all add: digit_val_def)

lemma then_lit_m:
  assumes "digit a" "digit b"
  shows "then_lit ''-'' (re_m (a # b # CHR ''-'' # r)) =
           (if 1 \<le> 10 * digit_val a + digit_val b \<and> 10 * digit_val a + digit_val b \<le> 12
            then [(10 * digit_val a + digit_val b, r)] else [])"
proof -
  have v: "digit_val a < 10" "digit_val b < 10"
    using assms by (simp_all add: digit_val_less)
  show ?thesis
    using v
    by (simp add: then_lit_def re_lit_def re_m_def alt1_def alt2_def
          digit_eq_iff [OF assms(1)] digit_between [OF assms(2)] digit_between [OF assms(1)]
          digit_literal digit_val_literal digit_not_sep [OF assms(2)])
       arith+
qed


lemma then_lit_d:
  assumes "digit a" "digit b"
  shows "then_lit ''Tt'' (re_d (a # b # CHR ''T'' # r)) =
           (if 1 \<le> 10 * digit_val a + digit_val b \<and> 10 * digit_val a + digit_val b \<le> 31
            then [(10 * digit_val a + digit_val b, r)] else [])"
proof -
  have v: "digit_val a < 10" "digit_val b < 10"
    using assms by (simp_all add: digit_val_less)
  show ?thesis
    using v
    by (simp add: then_lit_def re_lit_def re_d_def alt1_def alt2_def
          digit_eq_iff [OF assms(1)] digit_between [OF assms(2)] digit_between [OF assms(1)]
          digit_literal digit_val_literal digit_not_sep [OF assms(2)] digit_not_sep [OF assms(1)]
          assms)
       arith+
qed

lemma then_lit_H:
  assumes "digit a" "digit b"
  shows "then_lit '':'' (re_H (a # b # CHR '':'' # r)) =
           (if 10 * digit_val a + digit_val b \<le> 23
            then [(10 * digit_val a + digit_val b, r)] else [])"
proof -
  have v: "digit_val a < 10" "digit_val b < 10"
    using assms by (simp_all add: digit_val_less)
  show ?thesis
    using v
    by (simp add: then_lit_def re_lit_def re_H_def alt1_def alt2_def
          digit_eq_iff [OF assms(1)] digit_between [OF assms(2)] digit_between [OF assms(1)]
          digit_literal digit_val_literal digit_not_sep [OF assms(2)] digit_not_sep [OF assms(1)]
          assms)
qed

lemma then_lit_M:
  assumes "digit a" "digit b"
  shows "then_lit '':'' (re_M (a # b # CHR '':'' # r)) =
           (if 10 * digit_val a + digit_val b \<le> 59
            then [(10 * digit_val a + digit_val b, r)] else [])"
proof -
  have v: "digit_val a < 10" "digit_val b < 10"
    using assms by (simp_all add: digit_val_less)
  show ?thesis
    using v
    by (simp add: then_lit_def re_lit_def re_M_def alt1_def alt2_def
          digit_eq_iff [OF assms(1)] digit_between [OF assms(2)] digit_between [OF assms(1)]
          digit_literal digit_val_literal digit_not_sep [OF assms(2)] digit_not_sep [OF assms(1)]
          assms)
qed

lemma then_lit_S:
  assumes "digit a" "digit b"
  shows "then_lit ''Zz'' (re_S (a # b # CHR ''Z'' # r)) =
           (if 10 * digit_val a + digit_val b \<le> 61
            then [(10 * digit_val a + digit_val b, r)] else [])"
proof -
  have v: "digit_val a < 10" "digit_val b < 10"
    using assms by (simp_all add: digit_val_less)
  show ?thesis
    using v
    by (simp add: then_lit_def re_lit_def re_S_def alt1_def alt2_def
          digit_eq_iff [OF assms(1)] digit_between [OF assms(2)] digit_between [OF assms(1)]
          digit_literal digit_val_literal digit_not_sep [OF assms(2)] digit_not_sep [OF assms(1)]
          assms)
qed

lemma then_lit_Y:
  assumes "digit a" "digit b" "digit c" "digit d"
  shows "then_lit ''-'' (re_Y (a # b # c # d # CHR ''-'' # r)) =
           [(1000 * digit_val a + 100 * digit_val b + 10 * digit_val c + digit_val d, r)]"
  using assms by (simp add: then_lit_def re_lit_def re_Y_def)

lemma digit_char_val: "digit c \<Longrightarrow> digit_char (digit_val c) = c"
  by (auto simp: digit_def digit_val_def digit_char_def)

lemma str_nat_small: "n < 10 \<Longrightarrow> str_nat n = [digit_char n]"
  by (simp add: str_nat.simps)

lemma length_str_nat_pos: "0 < length (str_nat n)"
  by (subst str_nat.simps) simp

lemma zfill_one: "n < 10 \<Longrightarrow> zfill (Suc 0) (str_nat n) = [digit_char n]"
  by (simp add: zfill_def str_nat_small)

lemma zfill_step:
  assumes "0 < k"
  shows "zfill (k + 1) (str_nat n) = zfill k (str_nat (n div 10)) @ [digit_char (n mod 10)]"
proof (cases "n < 10")
  case True
  then have "str_nat (n div 10) = ''0''"
    by (simp add: str_nat_small digit_char_def)
  with True assms show ?thesis
    by (cases k) (simp_all add: zfill_def str_nat_small replicate_append_same)
next
  case False
  then have "str_nat n = str_nat (n div 10) @ [digit_char (n mod 10)]"
    by (subst str_nat.simps) simp
  then show ?thesis
    by (simp add: zfill_def Suc_diff_le)
qed

lemma zfill2:
  assumes "a < 10" "b < 10"
  shows "zfill 2 (str_nat (10 * a + b)) = [digit_char a, digit_char b]"
proof -
  have "(10 * a + b) div 10 = a" "(10 * a + b) mod 10 = b" using assms by simp_all
  then show ?thesis
    using zfill_step [of 1 "10 * a + b"] assms by (simp add: zfill_one numeral_2_eq_2)
qed

lemma zfill4:
  assumes "a < 10" "b < 10" "c < 10" "d < 10"
  shows "zfill 4 (str_nat (1000 * a + 100 * b + 10 * c + d)) =
           [digit_char a, digit_char b, digit_char c, digit_char d]"
proof -
  let ?n = "1000 * a + 100 * b + 10 * c + d"
  have d1: "?n div 10 = 100 * a + 10 * b + c \<and> ?n mod 10 = d"
    by (rule divmod_eqI) (use assms in simp_all)
  have d2: "(100 * a + 10 * b + c) div 10 = 10 * a + b \<and> (100 * a + 10 * b + c) mod 10 = c"
    by (rule divmod_eqI) (use assms in simp_all)
  have "zfill 4 (str_nat ?n) = zfill 3 (str_nat (100 * a + 10 * b + c)) @ [digit_char d]"
    using zfill_step [of 3 ?n] d1 by simp
  also have "zfill 3 (str_nat (100 * a + 10 * b + c)) =
               zfill 2 (str_nat (10 * a + b)) @ [digit_char c]"
    using zfill_step [of 2 "100 * a + 10 * b + c"] d2 by simp
  finally show ?thesis by (simp add: zfill2 assms)
qed

lemma matches_pattern_nth:
  assumes "matches_pattern s"
  shows "s = [s ! 0, s ! 1, s ! 2, s ! 3, CHR ''-'', s ! 5, s ! 6, CHR ''-'', s ! 8, s ! 9,
              CHR ''T'', s ! 11, s ! 12, CHR '':'', s ! 14, s ! 15, CHR '':'', s ! 17, s ! 18,
              CHR ''Z'']"
    and "digit (s ! 0)" "digit (s ! 1)" "digit (s ! 2)" "digit (s ! 3)" "digit (s ! 5)"
    "digit (s ! 6)" "digit (s ! 8)" "digit (s ! 9)" "digit (s ! 11)" "digit (s ! 12)"
    "digit (s ! 14)" "digit (s ! 15)" "digit (s ! 17)" "digit (s ! 18)"
  using assms unfolding matches_pattern_def
  by (simp_all split: list.splits)

lemma digit_digit_char:
  assumes "k < 10"
  shows "digit (digit_char k) \<and> digit_val (digit_char k) = k"
proof -
  from assms consider "k = 0" | "k = 1" | "k = 2" | "k = 3" | "k = 4" | "k = 5" | "k = 6"
    | "k = 7" | "k = 8" | "k = 9"
    by atomize_elim arith
  then show ?thesis
    by cases (simp_all add: digit_def digit_char_def digit_val_def)
qed

lemma two_digits:
  assumes "n < 100"
  shows "zfill 2 (str_nat n) = [digit_char (n div 10), digit_char (n mod 10)]"
proof -
  have "n div 10 < 10" using assms by (simp add: div_less_iff_less_mult)
  from zfill2 [OF this, of "n mod 10"] show ?thesis by simp
qed

lemma four_digits_sum:
  "1000 * (n div 1000) + 100 * (n div 100 mod 10) + 10 * (n div 10 mod 10) + n mod 10 = (n::nat)"
proof -
  have a: "n div 100 = 10 * (n div 1000) + n div 100 mod 10"
    using div_mult_mod_eq [of "n div 100" 10] by (simp add: div_mult2_eq [symmetric])
  have b: "n div 10 = 10 * (n div 100) + n div 10 mod 10"
    using div_mult_mod_eq [of "n div 10" 10] by (simp add: div_mult2_eq [symmetric])
  have c: "n = 10 * (n div 10) + n mod 10" by simp
  from a b c show ?thesis by linarith
qed

lemma four_digits:
  assumes "n < 10000"
  shows "zfill 4 (str_nat n) =
           [digit_char (n div 1000), digit_char (n div 100 mod 10), digit_char (n div 10 mod 10),
            digit_char (n mod 10)]"
proof -
  have "n div 1000 < 10" using assms by (simp add: div_less_iff_less_mult)
  from zfill4 [OF this, of "n div 100 mod 10" "n div 10 mod 10" "n mod 10"] show ?thesis
    by (simp add: four_digits_sum)
qed

lemma days_in_month_le: "days_in_month y m \<le> 31"
  by (simp add: days_in_month_def)

lemma format_valid:
  assumes "valid_datetime t" and "microsecond t = 0"
  shows "matches_pattern (format_iso_date t) \<and> timestamp_instant (format_iso_date t) = t"
proof -
  from assms(1) have v: "1 \<le> year t" "year t \<le> 9999" "1 \<le> month t" "month t \<le> 12"
    "1 \<le> day t" "day t \<le> days_in_month (year t) (month t)" "hour t < 24" "minute t < 60"
    "second t < 60"
    by (simp_all add: valid_datetime_def)
  from v(6) days_in_month_le [of "year t" "month t"] have d31: "day t \<le> 31" by linarith
  define y1 where "y1 = digit_char (year t div 1000)"
  define y2 where "y2 = digit_char (year t div 100 mod 10)"
  define y3 where "y3 = digit_char (year t div 10 mod 10)"
  define y4 where "y4 = digit_char (year t mod 10)"
  define m1 where "m1 = digit_char (month t div 10)"
  define m2 where "m2 = digit_char (month t mod 10)"
  define d1 where "d1 = digit_char (day t div 10)"
  define d2 where "d2 = digit_char (day t mod 10)"
  define h1 where "h1 = digit_char (hour t div 10)"
  define h2 where "h2 = digit_char (hour t mod 10)"
  define n1 where "n1 = digit_char (minute t div 10)"
  define n2 where "n2 = digit_char (minute t mod 10)"
  define s1 where "s1 = digit_char (second t div 10)"
  define s2 where "s2 = digit_char (second t mod 10)"
  note defs = y1_def y2_def y3_def y4_def m1_def m2_def d1_def d2_def h1_def h2_def n1_def
    n2_def s1_def s2_def
  have f: "format_iso_date t =
             [y1, y2, y3, y4, CHR ''-'', m1, m2, CHR ''-'', d1, d2, CHR ''T'', h1, h2, CHR '':'',
              n1, n2, CHR '':'', s1, s2, CHR ''Z'']"
    using v d31 by (simp add: format_iso_date_def two_digits four_digits defs)
  have small: "year t div 1000 < 10" "year t div 100 mod 10 < 10" "year t div 10 mod 10 < 10"
    "year t mod 10 < 10" "month t div 10 < 10" "month t mod 10 < 10" "day t div 10 < 10"
    "day t mod 10 < 10" "hour t div 10 < 10" "hour t mod 10 < 10" "minute t div 10 < 10"
    "minute t mod 10 < 10" "second t div 10 < 10" "second t mod 10 < 10"
    using v d31 by (simp_all add: div_less_iff_less_mult)
  have dg: "digit y1" "digit y2" "digit y3" "digit y4" "digit m1" "digit m2" "digit d1"
      "digit d2" "digit h1" "digit h2" "digit n1" "digit n2" "digit s1" "digit s2"
    unfolding defs using small by (simp_all add: digit_digit_char)
  have vals: "1000 * digit_val y1 + 100 * digit_val y2 + 10 * digit_val y3 + digit_val y4 = year t"
    "10 * digit_val m1 + digit_val m2 = month t" "10 * digit_val d1 + digit_val d2 = day t"
    "10 * digit_val h1 + digit_val h2 = hour t" "10 * digit_val n1 + digit_val n2 = minute t"
    "10 * digit_val s1 + digit_val s2 = second t"
    unfolding defs using small by (simp_all add: digit_digit_char four_digits_sum)
  have "matches_pattern (format_iso_date t)"
    unfolding f by (simp add: matches_pattern_def dg)
  moreover have "timestamp_instant (format_iso_date t) = t"
    unfolding f timestamp_instant_def using assms(2) by (simp add: vals)
  ultimately show ?thesis by (rule conjI)
qed

text \<open>
  C5.  A string of the shape \<^verbatim>\<open>YYYY-MM-DDTHH:MM:SSZ\<close> whose fields denote an instant
  (a year from 1 on, a month, a day of that month, an hour below 24, minutes and
  seconds below 60) is accepted by the Date Normalizer, which returns that instant,
  and re-formatting the instant to the pattern gives the string back.  A string of
  the shape whose fields denote no instant is rejected with \<^verbatim>\<open>ValueError\<close>.  So
  whenever the Date Normalizer turns a string of the shape into an instant,
  re-formatting gives the string back.  Every instant of whole seconds is reached:
  its re-formatted text has the shape and is turned into the instant again.
\<close>

theorem iso_round_trip:
  assumes "matches_pattern s"
  shows "(valid_datetime (timestamp_instant s) \<longrightarrow>
            convert_string_to_iso_date (JStr s) = Inr (timestamp_instant s) \<and>
            format_iso_date (timestamp_instant s) = s) \<and>
         (\<not> valid_datetime (timestamp_instant s) \<longrightarrow>
            (\<exists>msg. convert_string_to_iso_date (JStr s) = Inl (ValueError msg))) \<and>
         (\<forall>t. convert_string_to_iso_date (JStr s) = Inr t \<longrightarrow> format_iso_date t = s) \<and>
         (\<forall>t. valid_datetime t \<and> microsecond t = 0 \<longrightarrow>
            matches_pattern (format_iso_date t) \<and>
            convert_string_to_iso_date (JStr (format_iso_date t)) = Inr t)"
proof -
  have main: "(valid_datetime (timestamp_instant s) \<longrightarrow>
            convert_string_to_iso_date (JStr s) = Inr (timestamp_instant s) \<and>
            format_iso_date (timestamp_instant s) = s) \<and>
         (\<not> valid_datetime (timestamp_instant s) \<longrightarrow>
            (\<exists>msg. convert_string_to_iso_date (JStr s) = Inl (ValueError msg)))"
    if mp: "matches_pattern s" for s
  proof -
    define y1 where "y1 = s ! 0"
    define y2 where "y2 = s ! 1"
    define y3 where "y3 = s ! 2"
    define y4 where "y4 = s ! 3"
    define m1 where "m1 = s ! 5"
    define m2 where "m2 = s ! 6"
    define d1 where "d1 = s ! 8"
    define d2 where "d2 = s ! 9"
    define h1 where "h1 = s ! 11"
    define h2 where "h2 = s ! 12"
    define n1 where "n1 = s ! 14"
    define n2 where "n2 = s ! 15"
    define s1 where "s1 = s ! 17"
    define s2 where "s2 = s ! 18"
    note defs = y1_def y2_def y3_def y4_def m1_def m2_def d1_def d2_def h1_def h2_def n1_def
      n2_def s1_def s2_def
    have s: "s = [y1, y2, y3, y4, CHR ''-'', m1, m2, CHR ''-'', d1, d2, CHR ''T'', h1, h2, CHR '':'',
                  n1, n2, CHR '':'', s1, s2, CHR ''Z'']"
      unfolding defs by (rule matches_pattern_nth(1) [OF mp])
    have dg: "digit y1" "digit y2" "digit y3" "digit y4" "digit m1" "digit m2" "digit d1"
        "digit d2" "digit h1" "digit h2" "digit n1" "digit n2" "digit s1" "digit s2"
      unfolding defs by (rule matches_pattern_nth [OF mp])+
    define Y where "Y = 1000 * digit_val y1 + 100 * digit_val y2 + 10 * digit_val y3 + digit_val y4"
    define m where "m = 10 * digit_val m1 + digit_val m2"
    define d where "d = 10 * digit_val d1 + digit_val d2"
    define H where "H = 10 * digit_val h1 + digit_val h2"
    define M where "M = 10 * digit_val n1 + digit_val n2"
    define S where "S = 10 * digit_val s1 + digit_val s2"
    have ti: "timestamp_instant s =
                \<lparr>year = Y, month = m, day = d, hour = H, minute = M, second = S, microsecond = 0\<rparr>"
      unfolding timestamp_instant_def Y_def m_def d_def H_def M_def S_def defs by (rule refl)
    have re: "re_iso s =
                (if 1 \<le> m \<and> m \<le> 12 \<and> 1 \<le> d \<and> d \<le> 31 \<and> H \<le> 23 \<and> M \<le> 59 \<and> S \<le> 61
                 then [((Y, m, d, H, M, S), [])] else [])"
      unfolding s re_iso_def Y_def m_def d_def H_def M_def S_def
      by (simp add: then_lit_Y then_lit_m then_lit_d then_lit_H then_lit_M then_lit_S dg)
    have conv: "convert_string_to_iso_date (JStr s) =
                  (if 1 \<le> m \<and> m \<le> 12 \<and> 1 \<le> d \<and> d \<le> 31 \<and> H \<le> 23 \<and> M \<le> 59 \<and> S \<le> 61
                   then mk_datetime Y m d H M S 0
                   else Inl (ValueError (''time data '' @ quoted s @ '' does not match format '' @
                                         quoted ''%Y-%m-%dT%H:%M:%SZ'')))"
      by (simp add: strptime_def re)
    have v: "digit_val y1 < 10" "digit_val y2 < 10" "digit_val y3 < 10" "digit_val y4 < 10"
      "digit_val m1 < 10" "digit_val m2 < 10" "digit_val d1 < 10" "digit_val d2 < 10"
      "digit_val h1 < 10" "digit_val h2 < 10" "digit_val n1 < 10" "digit_val n2 < 10"
      "digit_val s1 < 10" "digit_val s2 < 10"
      using dg by (simp_all add: digit_val_less)
    have "format_iso_date
            \<lparr>year = Y, month = m, day = d, hour = H, minute = M, second = S, microsecond = 0\<rparr> =
          [y1, y2, y3, y4, CHR ''-'', m1, m2, CHR ''-'', d1, d2, CHR ''T'', h1, h2, CHR '':'',
           n1, n2, CHR '':'', s1, s2, CHR ''Z'']"
      unfolding format_iso_date_def
      by (simp add: Y_def m_def d_def H_def M_def S_def zfill4 zfill2 v digit_char_val dg)
    with s have fmt: "format_iso_date
                 \<lparr>year = Y, month = m, day = d, hour = H, minute = M, second = S, microsecond = 0\<rparr> = s"
      by (rule ssubst)
    have d31: "d \<le> 31" if "d \<le> days_in_month Y m"
      using that days_in_month_le [of Y m] by linarith
    have ok: "convert_string_to_iso_date (JStr s) = Inr (timestamp_instant s)"
      if "valid_datetime (timestamp_instant s)"
      using that d31 unfolding conv ti by (simp add: valid_datetime_def mk_datetime_def)
    have bad: "\<exists>msg. convert_string_to_iso_date (JStr s) = Inl (ValueError msg)"
      if "\<not> valid_datetime (timestamp_instant s)"
      using that unfolding conv ti by (simp add: valid_datetime_def mk_datetime_def)
    from ok bad fmt show ?thesis unfolding ti by blast
  qed
  have coming: "format_iso_date t = s" if "convert_string_to_iso_date (JStr s) = Inr t" for t
  proof (cases "valid_datetime (timestamp_instant s)")
    case True
    with main [OF assms] that show ?thesis by simp
  next
    case False
    with main [OF assms] that show ?thesis by auto
  qed
  have forth: "matches_pattern (format_iso_date t) \<and>
               convert_string_to_iso_date (JStr (format_iso_date t)) = Inr t"
    if "valid_datetime t \<and> microsecond t = 0" for t
  proof -
    from that format_valid [of t] have mp: "matches_pattern (format_iso_date t)"
      and ti: "timestamp_instant (format_iso_date t) = t"
      by simp_all
    from main [OF mp] that show ?thesis by (simp add: ti mp)
  qed
  from main [OF assms] coming forth show ?thesis by blast
qed

theorem iso_round_trip_witness:
  "convert_string_to_iso_date (JStr ''2020-05-25T07:08:09Z'') =
     Inr \<lparr>year = 2020, month = 5, day = 25, hour = 7, minute = 8, second = 9, microsecond = 0\<rparr> \<and>
   format_iso_date
     \<lparr>year = 2020, month = 5, day = 25, hour = 7, minute = 8, second = 9, microsecond = 0\<rparr> =
     ''2020-05-25T07:08:09Z'' \<and>
   (\<exists>msg. convert_string_to_iso_date (JStr ''2020-13-45T99:99:99Z'') = Inl (ValueError msg)) \<and>
   (\<exists>msg. convert_string_to_iso_date (JStr ''2021-02-29T00:00:00Z'') = Inl (ValueError msg)) \<and>
   matches_pattern
     (format_iso_date
        \<lparr>year = 2020, month = 2, day = 29, hour = 0, minute = 0, second = 0, microsecond = 0\<rparr>) \<and>
   convert_string_to_iso_date
     (JStr (format_iso_date
        \<lparr>year = 2020, month = 2, day = 29, hour = 0, minute = 0, second = 0, microsecond = 0\<rparr>)) =
     Inr \<lparr>year = 2020, month = 2, day = 29, hour = 0, minute = 0, second = 0, microsecond = 0\<rparr>"
proof -
  let ?t = "\<lparr>year = 2020, month = 5, day = 25, hour = 7, minute = 8, second = 9, microsecond = 0\<rparr>"
  let ?leap = "\<lparr>year = 2020, month = 2, day = 29, hour = 0, minute = 0, second = 0, microsecond = 0\<rparr>"
  have h1: "matches_pattern ''2020-05-25T07:08:09Z''"
    by (simp add: matches_pattern_def digit_def)
  have i1: "timestamp_instant ''2020-05-25T07:08:09Z'' = ?t"
    by (simp add: timestamp_instant_def digit_val_def)
  have v1: "valid_datetime (timestamp_instant ''2020-05-25T07:08:09Z'')"
    unfolding i1 by (simp add: valid_datetime_def days_in_month_def)
  note T = iso_round_trip [OF h1]
  from T [THEN conjunct1] v1 have p1: "convert_string_to_iso_date (JStr ''2020-05-25T07:08:09Z'') = Inr ?t"
    unfolding i1 by blast
  from T [THEN conjunct2, THEN conjunct2, THEN conjunct1, rule_format, OF p1]
  have p2: "format_iso_date ?t = ''2020-05-25T07:08:09Z''" .
  have h3: "matches_pattern ''2020-13-45T99:99:99Z''"
    by (simp add: matches_pattern_def digit_def)
  have v3: "\<not> valid_datetime (timestamp_instant ''2020-13-45T99:99:99Z'')"
    by (simp add: timestamp_instant_def digit_val_def valid_datetime_def)
  from iso_round_trip [OF h3, THEN conjunct2, THEN conjunct1] v3
  have p3: "\<exists>msg. convert_string_to_iso_date (JStr ''2020-13-45T99:99:99Z'') = Inl (ValueError msg)"
    by blast
  have h4: "matches_pattern ''2021-02-29T00:00:00Z''"
    by (simp add: matches_pattern_def digit_def)
  have v4: "\<not> valid_datetime (timestamp_instant ''2021-02-29T00:00:00Z'')"
    by (simp add: timestamp_instant_def digit_val_def valid_datetime_def days_in_month_def
          is_leap_def)
  from iso_round_trip [OF h4, THEN conjunct2, THEN conjunct1] v4
  have p4: "\<exists>msg. convert_string_to_iso_date (JStr ''2021-02-29T00:00:00Z'') = Inl (ValueError msg)"
    by blast
  have v5: "valid_datetime ?leap \<and> microsecond ?leap = 0"
    by (simp add: valid_datetime_def days_in_month_def is_leap_def)
  from T [THEN conjunct2, THEN conjunct2, THEN conjunct2, rule_format, OF v5]
  have p5: "matches_pattern (format_iso_date ?leap) \<and>
            convert_string_to_iso_date (JStr (format_iso_date ?leap)) = Inr ?leap" .
  from p1 p2 p3 p4 p5 show ?thesis by blast
qed

end
